(* ===== verification/Prelude.thy ===== *)
theory Prelude
  imports Main "HOL-Library.Word" "HOL-Library.Char_ord" "HOL-Library.List_Lexorder"
begin

text \<open>
  Shared vocabulary of the development: the faults a C or C++ program can run into, the
  result type of every fallible operation with its sequencing combinator, machine integer
  abbreviations, generic list lemmas, and the interface of a prefix codec (an encoder and a
  decoder that reads one value off the front of its input), proved once for all the
  formats the program reads and writes.
\<close>

unbundle bit_operations_syntax

named_theorems res_simps \<open>rewrite rules that run a sequence of fallible steps\<close>
named_theorems mem_simps \<open>rewrite rules for checked loads and stores\<close>
named_theorems wire_simps \<open>rewrite rules for the layout of peer wire messages\<close>

subsection \<open>Machine integers\<close>

type_synonym byte = "8 word"
type_synonym int32 = "32 word"
type_synonym int64 = "64 word"

lemma sint32_of_int: "- (2 ^ 31) \<le> i \<Longrightarrow> i < 2 ^ 31 \<Longrightarrow> sint (word_of_int i :: int32) = i"
  by (simp add: signed_take_bit_int_eq_self sint_sbintrunc')

lemma sint64_of_int: "- (2 ^ 63) \<le> i \<Longrightarrow> i < 2 ^ 63 \<Longrightarrow> sint (word_of_int i :: int64) = i"
  by (simp add: signed_take_bit_int_eq_self sint_sbintrunc')

lemma sint32_of_nat: "n < 2 ^ 31 \<Longrightarrow> sint (of_nat n :: int32) = int n"
  using sint32_of_int [of "int n"] by simp

lemma sint64_of_nat: "n < 2 ^ 63 \<Longrightarrow> sint (of_nat n :: int64) = int n"
  using sint64_of_int [of "int n"] by simp

lemma scast_of_nat: "n < 2 ^ 31 \<Longrightarrow> scast (of_nat n :: int32) = (of_nat n :: int64)"
  by (simp add: scast_eq sint32_of_nat)

lemma unat64_of_nat: "n < 2 ^ 64 \<Longrightarrow> unat (of_nat n :: int64) = n"
  by (simp add: unat_of_nat)

lemma unat32_of_nat: "n < 2 ^ 32 \<Longrightarrow> unat (of_nat n :: int32) = n"
  by (simp add: unat_of_nat)

lemma of_nat32_eq_iff:
  "m < 2 ^ 32 \<Longrightarrow> n < 2 ^ 32 \<Longrightarrow> (of_nat m :: int32) = of_nat n \<longleftrightarrow> m = n"
  by (metis unat32_of_nat)

lemma ucast_of_nat_32: "n < 2 ^ 32 \<Longrightarrow> ucast (of_nat n :: int64) = (of_nat n :: int32)"
  by (simp add: unsigned_of_nat take_bit_nat_eq_self)

lemma sint32_eq_of_int: "sint (w :: int32) = i \<Longrightarrow> w = word_of_int i"
  by auto

lemma sint32_eq_of_nat: "sint (w :: int32) = int n \<Longrightarrow> w = of_nat n"
  by (drule sint32_eq_of_int) simp

text \<open>Sizes are natural numbers; the difference of two \<open>size_t\<close> values wraps below zero.\<close>

definition size_t_minus :: "nat \<Rightarrow> nat \<Rightarrow> nat" where
  "size_t_minus m n = (if n \<le> m then m - n else 2 ^ 64 + m - n)"

text \<open>The conversion of a wider integer to \<open>int\<close>.\<close>

definition to_int32 :: "int \<Rightarrow> int" where
  "to_int32 i = sint (word_of_int i :: int32)"

lemma to_int32_id: "- (2 ^ 31) \<le> i \<Longrightarrow> i < 2 ^ 31 \<Longrightarrow> to_int32 i = i"
  unfolding to_int32_def by (rule sint32_of_int)

subsection \<open>Faults and results\<close>

text \<open>
  A fault is what ends a run of the program outside its own error handling: an access
  outside an object, a null pointer, reading the wrong member of a union, an exception of the
  standard library that nothing catches, a signed overflow, an assertion. \<open>OutOfFuel\<close> is not
  a behaviour of the program: it marks that a bound of the model was too small, and lemmas
  show that it never occurs.
\<close>

datatype fault =
    OutOfBounds
  | NullDeref
  | TypeConfusion
  | StdException
  | SignedOverflow
  | AssertFail
  | OutOfFuel

type_synonym 'a res = "fault + 'a"

definition and_then :: "'e + 'a \<Rightarrow> ('a \<Rightarrow> 'e + 'b) \<Rightarrow> 'e + 'b" where
  "and_then m f = (case m of Inl e \<Rightarrow> Inl e | Inr x \<Rightarrow> f x)"

lemma and_then_simps [simp, res_simps]:
  "and_then (Inl e) f = Inl e"
  "and_then (Inr x) f = f x"
  by (simp_all add: and_then_def)

lemma and_then_eq_Inr: "and_then m f = Inr y \<longleftrightarrow> (\<exists>x. m = Inr x \<and> f x = Inr y)"
  by (cases m) simp_all

lemma and_then_eq_Inl:
  "and_then m f = Inl e \<longleftrightarrow> m = Inl e \<or> (\<exists>x. m = Inr x \<and> f x = Inl e)"
  by (cases m) auto

lemma and_then_InrE:
  assumes "and_then m f = Inr y"
  obtains x where "m = Inr x" and "f x = Inr y"
  using assms by (auto simp: and_then_eq_Inr)

lemma and_then_assoc: "and_then (and_then m f) g = and_then m (\<lambda>x. and_then (f x) g)"
  by (cases m) simp_all

lemma and_then_cong [fundef_cong]:
  "m = m' \<Longrightarrow> (\<And>x. m' = Inr x \<Longrightarrow> f x = f' x) \<Longrightarrow> and_then m f = and_then m' f'"
  by (cases m') simp_all

lemma if_and_then: "and_then (if b then m else n) f = (if b then and_then m f else and_then n f)"
  by simp

text \<open>
  Two runs with different bounds: \<open>fuel_le e r r'\<close> is equality unless the first one ended in \<open>e\<close>, the
  error of an exhausted bound.
\<close>

definition fuel_le :: "'e \<Rightarrow> 'e + 'a \<Rightarrow> 'e + 'a \<Rightarrow> bool" where
  "fuel_le e r r' \<longleftrightarrow> r = Inl e \<or> r' = r"

lemma fuel_le_refl [simp, intro]: "fuel_le e r r"
  by (simp add: fuel_le_def)

lemma fuel_le_Inl [simp]: "fuel_le e (Inl e) r"
  by (simp add: fuel_le_def)

lemma fuel_le_bind:
  "fuel_le e m m' \<Longrightarrow> (\<And>x. fuel_le e (f x) (f' x)) \<Longrightarrow> fuel_le e (and_then m f) (and_then m' f')"
  by (cases m) (auto simp: fuel_le_def)

lemma fuel_le_prod:
  "(\<And>a b. fuel_le e (f a b) (f' a b)) \<Longrightarrow> fuel_le e (case p of (a, b) \<Rightarrow> f a b) (case p of (a, b) \<Rightarrow> f' a b)"
  by (cases p) simp

lemma fuel_le_if:
  "(b \<Longrightarrow> fuel_le e r r') \<Longrightarrow> (\<not> b \<Longrightarrow> fuel_le e q q') \<Longrightarrow>
     fuel_le e (if b then r else q) (if b then r' else q')"
  by simp

lemma fuel_le_option:
  "fuel_le e r r' \<Longrightarrow> (\<And>x. fuel_le e (f x) (f' x)) \<Longrightarrow>
     fuel_le e (case p of None \<Rightarrow> r | Some x \<Rightarrow> f x) (case p of None \<Rightarrow> r' | Some x \<Rightarrow> f' x)"
  by (cases p) simp_all

lemmas fuel_le_intros = fuel_le_bind fuel_le_prod fuel_le_if fuel_le_option fuel_le_refl

text \<open>A run that did not exhaust the bound of the model.\<close>

definition fuelled :: "'a res \<Rightarrow> bool" where
  "fuelled m \<longleftrightarrow> m \<noteq> Inl OutOfFuel"

lemma fuelled_simps [simp]:
  "fuelled (Inr x)"
  "fuelled (Inl e) \<longleftrightarrow> e \<noteq> OutOfFuel"
  "fuelled (and_then m f) \<longleftrightarrow> fuelled m \<and> (\<forall>x. m = Inr x \<longrightarrow> fuelled (f x))"
  by (simp_all add: fuelled_def) (cases m; simp)

subsection \<open>Lists\<close>

lemma take_drop_append_id:
  "length xs = n \<Longrightarrow> take n (xs @ ys) = xs"
  "length xs = n \<Longrightarrow> drop n (xs @ ys) = ys"
  by simp_all

lemma append_eq_take_drop:
  "n \<le> length xs \<Longrightarrow> xs = ys @ zs \<Longrightarrow> length ys = n \<Longrightarrow> take n xs = ys \<and> drop n xs = zs"
  by simp

lemma take_update_snoc: "n < length xs \<Longrightarrow> take (Suc n) (xs[n := y]) = take n xs @ [y]"
  by (simp add: take_Suc_conv_app_nth)

lemma take_Suc_drop:
  "i < length xs \<Longrightarrow> take (Suc k) (drop i xs) = xs ! i # take k (drop (Suc i) xs)"
  by (simp add: Cons_nth_drop_Suc [symmetric])

lemma takeWhile_append_stop:
  "(\<forall>x \<in> set xs. P x) \<Longrightarrow> \<not> P y \<Longrightarrow> takeWhile P (xs @ y # ys) = xs"
  by (simp add: takeWhile_tail)

lemma dropWhile_append_stop:
  "(\<forall>x \<in> set xs. P x) \<Longrightarrow> \<not> P y \<Longrightarrow> dropWhile P (xs @ y # ys) = y # ys"
  by (simp add: dropWhile_append3)

text \<open>An association list with strictly increasing keys is determined by its map.\<close>

lemma map_of_strict_sorted_unique:
  fixes xs ys :: "('k::linorder \<times> 'v) list"
  assumes "sorted_wrt (<) (map fst xs)" and "sorted_wrt (<) (map fst ys)"
    and "map_of xs = map_of ys"
  shows "xs = ys"
proof -
  have d: "distinct (map fst xs)" "distinct (map fst ys)"
    and s: "sorted (map fst xs)" "sorted (map fst ys)"
    using assms(1,2) by (simp_all add: strict_sorted_iff)
  have "set xs = set ys"
  proof (rule set_eqI)
    fix e :: "'k \<times> 'v"
    show "e \<in> set xs \<longleftrightarrow> e \<in> set ys"
      using d assms(3) by (cases e) (metis map_of_eq_Some_iff)
  qed
  moreover have "inj_on fst (set xs)" using d(1) by (simp add: distinct_map)
  ultimately show ?thesis
    using d s by (intro map_sorted_distinct_set_unique [of fst]) simp_all
qed

subsection \<open>Prefix codecs\<close>

text \<open>
  The interface between whoever writes a format and whoever reads it: decoding what the
  encoder wrote gives the value back and leaves exactly the bytes that followed.
\<close>

locale prefix_codec =
  fixes enc :: "'a \<Rightarrow> 's list"
    and dec :: "'s list \<Rightarrow> 'e + 'a \<times> 's list"
    and ok :: "'a \<Rightarrow> bool"
  assumes dec_enc: "ok x \<Longrightarrow> dec (enc x @ rest) = Inr (x, rest)"
begin

lemma dec_enc_all: "ok x \<Longrightarrow> dec (enc x) = Inr (x, [])"
  using dec_enc [of x "[]"] by simp

lemma enc_split_unique:
  assumes "ok x" and "ok y" and "enc x @ r = enc y @ s"
  shows "x = y \<and> r = s"
proof -
  have "dec (enc y @ s) = Inr (x, r)"
    using dec_enc [OF assms(1), of r] by (simp only: assms(3))
  moreover have "dec (enc y @ s) = Inr (y, s)"
    by (rule dec_enc [OF assms(2)])
  ultimately show ?thesis by simp
qed

lemma enc_inj: "ok x \<Longrightarrow> ok y \<Longrightarrow> enc x = enc y \<Longrightarrow> x = y"
  using enc_split_unique [of x y "[]" "[]"] by simp

lemma enc_prefix_free: "ok x \<Longrightarrow> ok y \<Longrightarrow> enc x = enc y @ s \<Longrightarrow> x = y \<and> s = []"
  using enc_split_unique [of x y "[]" s] by simp

lemma enc_stream_inj:
  assumes "\<forall>x \<in> set xs. ok x" and "\<forall>y \<in> set ys. ok y" and "length xs = length ys"
    and "concat (map enc xs) @ r = concat (map enc ys) @ s"
  shows "xs = ys \<and> r = s"
  using assms(3,1,2,4)
proof (induction xs ys rule: list_induct2)
  case Nil
  then show ?case by simp
next
  case (Cons x xs y ys)
  from Cons.prems have "enc x @ (concat (map enc xs) @ r) = enc y @ (concat (map enc ys) @ s)"
    by simp
  with Cons.prems(1,2) have "x = y \<and> concat (map enc xs) @ r = concat (map enc ys) @ s"
    by (intro enc_split_unique) auto
  with Cons.IH Cons.prems(1,2) show ?case by simp
qed

end

end
