(* ===== verification/Decimal.thy ===== *)
theory Decimal
  imports Prelude
begin

text \<open>
  Decimal text as the C and C++ libraries write and read it: \<open>nat_dec\<close> and \<open>int_dec\<close> are
  the digits \<open>std::to_string\<close>, \<open>sprintf("%d")\<close> and \<open>snprintf("%lld")\<close> print, \<open>dec_value\<close> is
  the number a run of digits denotes, and \<open>is_space\<close> is \<open>isspace\<close> in the default locale.
\<close>

definition is_digit :: "char \<Rightarrow> bool" where
  "is_digit c \<longleftrightarrow> 48 \<le> (of_char c :: nat) \<and> (of_char c :: nat) \<le> 57"

definition digit_char :: "nat \<Rightarrow> char" where
  "digit_char d = char_of (48 + d)"

definition digit_value :: "char \<Rightarrow> nat" where
  "digit_value c = of_char c - 48"

definition is_space :: "char \<Rightarrow> bool" where
  "is_space c \<longleftrightarrow> of_char c \<in> {9, 10, 11, 12, 13, 32 :: nat}"

fun nat_dec :: "nat \<Rightarrow> string" where
  "nat_dec n = (if n < 10 then [digit_char n] else nat_dec (n div 10) @ [digit_char (n mod 10)])"

declare nat_dec.simps [simp del]

definition int_dec :: "int \<Rightarrow> string" where
  "int_dec i = (if i < 0 then CHR ''-'' # nat_dec (nat (- i)) else nat_dec (nat i))"

definition dec_value :: "string \<Rightarrow> nat" where
  "dec_value cs = foldl (\<lambda>n c. 10 * n + digit_value c) 0 cs"

lemma digit_char_simps [simp]:
  "d < 10 \<Longrightarrow> is_digit (digit_char d)"
  "d < 10 \<Longrightarrow> digit_value (digit_char d) = d"
  by (simp_all add: is_digit_def digit_char_def digit_value_def)

lemma digit_char_inj: "d < 10 \<Longrightarrow> e < 10 \<Longrightarrow> digit_char d = digit_char e \<Longrightarrow> d = e"
  by (metis digit_char_simps(2))

lemma nat_dec_digits: "c \<in> set (nat_dec n) \<Longrightarrow> is_digit c"
proof (induction n rule: nat_dec.induct)
  case (1 n)
  then show ?case
    by (subst (asm) (2) nat_dec.simps) (auto split: if_splits)
qed

lemma nat_dec_not_Nil [simp]: "nat_dec n \<noteq> []"
  by (subst nat_dec.simps) simp

lemma dec_value_snoc: "dec_value (cs @ [c]) = 10 * dec_value cs + digit_value c"
  by (simp add: dec_value_def)

lemma dec_value_nat_dec [simp]: "dec_value (nat_dec n) = n"
proof (induction n rule: nat_dec.induct)
  case (1 n)
  show ?case
  proof (cases "n < 10")
    case True
    then show ?thesis by (subst nat_dec.simps) (simp add: dec_value_def)
  next
    case False
    with 1 show ?thesis by (subst nat_dec.simps) (simp add: dec_value_snoc)
  qed
qed

lemma nat_dec_inj: "nat_dec m = nat_dec n \<longleftrightarrow> m = n"
  by (metis dec_value_nat_dec)

lemma nat_dec_hd_digit: "is_digit (hd (nat_dec n))"
  by (rule nat_dec_digits [of _ n]) simp

text \<open>No padding: a printed number starts with a zero only when it is zero.\<close>

lemma nat_dec_hd_zero: "hd (nat_dec n) = CHR ''0'' \<longleftrightarrow> n = 0"
proof (induction n rule: nat_dec.induct)
  case (1 n)
  show ?case
  proof (cases "n < 10")
    case True
    have "digit_char n = CHR ''0'' \<longleftrightarrow> n = 0"
      using True by (simp add: digit_char_def char_of_eq_iff take_bit_eq_mod)
    with True show ?thesis by (subst nat_dec.simps) simp
  next
    case False
    with 1 have "hd (nat_dec (n div 10)) = CHR ''0'' \<longleftrightarrow> n div 10 = 0" by simp
    moreover have "n div 10 \<noteq> 0" using False by simp
    ultimately show ?thesis using False by (subst nat_dec.simps) simp
  qed
qed

lemma digit_not_special:
  "is_digit c \<Longrightarrow> c \<noteq> CHR '':'' \<and> c \<noteq> CHR ''e'' \<and> c \<noteq> CHR ''-'' \<and> c \<noteq> CHR ''+'' \<and>
     c \<noteq> CHR ''d'' \<and> c \<noteq> CHR ''i'' \<and> c \<noteq> CHR ''l'' \<and> c \<noteq> CHR ''&'' \<and> c \<noteq> CHR 0x00 \<and> \<not> is_space c"
  by (auto simp: is_digit_def is_space_def)

lemma nat_dec_not_special:
  "c \<in> set (nat_dec n) \<Longrightarrow> c \<noteq> CHR '':'' \<and> c \<noteq> CHR ''e'' \<and> c \<noteq> CHR ''-'' \<and> c \<noteq> CHR ''+'' \<and>
     c \<noteq> CHR 0x00 \<and> \<not> is_space c"
  by (drule nat_dec_digits) (simp add: digit_not_special)

text \<open>Length of a printed number.\<close>

lemma nat_dec_length: "0 < k \<Longrightarrow> length (nat_dec n) \<le> k \<longleftrightarrow> n < 10 ^ k"
proof (induction n arbitrary: k rule: nat_dec.induct)
  case (1 n)
  show ?case
  proof (cases "n < 10")
    case True
    have "(10::nat) \<le> 10 ^ k" using "1.prems" self_le_power [of "10::nat" k] by simp
    with True have "n < 10 ^ k" by linarith
    moreover have "length (nat_dec n) = 1" using True by (subst nat_dec.simps) simp
    ultimately show ?thesis using "1.prems" by simp
  next
    case False
    have len: "length (nat_dec n) = Suc (length (nat_dec (n div 10)))"
      using False by (subst nat_dec.simps) simp
    obtain j where k: "k = Suc j" using "1.prems" by (cases k) auto
    show ?thesis
    proof (cases "j = 0")
      case True
      then show ?thesis using False len k by (simp add: not_less)
    next
      case jp: False
      have "length (nat_dec (n div 10)) \<le> j \<longleftrightarrow> n div 10 < 10 ^ j"
        using "1.IH" [OF False] jp by simp
      also have "\<dots> \<longleftrightarrow> n < 10 ^ k"
        using k by (simp add: div_less_iff_less_mult mult.commute)
      finally show ?thesis using len k by simp
    qed
  qed
qed

text \<open>The prefix of digits, as every number reader scans it.\<close>

lemma takeWhile_digits_append:
  "\<lbrakk>\<forall>c \<in> set ds. is_digit c; rest = [] \<or> \<not> is_digit (hd rest)\<rbrakk> \<Longrightarrow>
     takeWhile is_digit (ds @ rest) = ds \<and> dropWhile is_digit (ds @ rest) = rest"
  by (cases rest) (auto simp: takeWhile_append_stop dropWhile_append_stop)

lemma takeWhile_nat_dec:
  "rest = [] \<or> \<not> is_digit (hd rest) \<Longrightarrow>
     takeWhile is_digit (nat_dec n @ rest) = nat_dec n \<and> dropWhile is_digit (nat_dec n @ rest) = rest"
  by (rule takeWhile_digits_append) (auto intro: nat_dec_digits)

end
