(* ===== verification/BItems.thy ===== *)
theory BItems
  imports Decimal
begin

text \<open>
  The item classes of the bencoding library: \<open>BInteger\<close>, \<open>BString\<close>, \<open>BList\<close> and
  \<open>BDictionary\<close>. A \<open>std::shared_ptr<BItem>\<close> is a \<open>bitem option\<close> (\<open>None\<close> is the null
  pointer). A \<open>BDictionary\<close>'s \<open>std::map\<close> is the list of its entries in the order of the
  map's comparator, which compares keys by their string value (byte by byte).
\<close>

subsection \<open>Items\<close>

datatype bitem =
    BInteger int64
  | BString string
  | BList "bitem option list"
  | BDictionary "(string \<times> bitem option) list"

type_synonym item_ptr = "bitem option"
type_synonym blist = "item_ptr list"
type_synonym bdict = "(string \<times> item_ptr) list"

lemma bitem_induct [case_names BInteger BString BList BDictionary]:
  assumes "\<And>i. P (BInteger i)" and "\<And>s. P (BString s)"
    and "\<And>xs. (\<And>y. Some y \<in> set xs \<Longrightarrow> P y) \<Longrightarrow> P (BList xs)"
    and "\<And>d. (\<And>k y. (k, Some y) \<in> set d \<Longrightarrow> P y) \<Longrightarrow> P (BDictionary d)"
  shows "P x"
proof (induction x)
  case (BList xs)
  then show ?case by (intro assms(3)) force
next
  case (BDictionary d)
  then show ?case by (intro assms(4)) (force simp: snds.simps)
qed (fact assms)+

text \<open>\<open>BItem::as<BString>\<close>: the cast is null for any other class.\<close>

definition as_BString :: "bitem \<Rightarrow> string option" where
  "as_BString x = (case x of BString s \<Rightarrow> Some s | _ \<Rightarrow> None)"

subsection \<open>BInteger and BString\<close>

definition BInteger_value :: "bitem \<Rightarrow> int64 res" where
  "BInteger_value x = (case x of BInteger i \<Rightarrow> Inr i | _ \<Rightarrow> Inl TypeConfusion)"

definition BInteger_setValue :: "bitem \<Rightarrow> int64 \<Rightarrow> bitem res" where
  "BInteger_setValue x v = (case x of BInteger _ \<Rightarrow> Inr (BInteger v) | _ \<Rightarrow> Inl TypeConfusion)"

definition BString_value :: "bitem \<Rightarrow> string res" where
  "BString_value x = (case x of BString s \<Rightarrow> Inr s | _ \<Rightarrow> Inl TypeConfusion)"

definition BString_setValue :: "bitem \<Rightarrow> string \<Rightarrow> bitem res" where
  "BString_setValue x v = (case x of BString _ \<Rightarrow> Inr (BString v) | _ \<Rightarrow> Inl TypeConfusion)"

definition BString_length :: "bitem \<Rightarrow> nat res" where
  "BString_length x = and_then (BString_value x) (\<lambda>s. Inr (length s))"

subsection \<open>BList\<close>

definition BList_create :: "blist" where
  "BList_create = []"

definition BList_create_items :: "item_ptr list \<Rightarrow> blist" where
  "BList_create_items items = items"

definition BList_size :: "blist \<Rightarrow> nat" where
  "BList_size xs = length xs"

definition BList_empty :: "blist \<Rightarrow> bool" where
  "BList_empty xs \<longleftrightarrow> xs = []"

definition BList_push_back :: "blist \<Rightarrow> item_ptr \<Rightarrow> blist res" where
  "BList_push_back xs p = (if p = None then Inl AssertFail else Inr (xs @ [p]))"

definition BList_pop_back :: "blist \<Rightarrow> blist res" where
  "BList_pop_back xs = (if BList_empty xs then Inl AssertFail else Inr (butlast xs))"

definition BList_front :: "blist \<Rightarrow> item_ptr res" where
  "BList_front xs = (if BList_empty xs then Inl AssertFail else Inr (hd xs))"

definition BList_back :: "blist \<Rightarrow> item_ptr res" where
  "BList_back xs = (if BList_empty xs then Inl AssertFail else Inr (last xs))"

lemmas BList_defs = BList_create_def BList_size_def BList_empty_def BList_push_back_def
  BList_pop_back_def BList_front_def BList_back_def

lemma BList_push_pop:
  "BList_push_back xs p = Inr ys \<Longrightarrow>
     BList_pop_back ys = Inr xs \<and> BList_back ys = Inr p \<and> BList_size ys = BList_size xs + 1"
  by (auto simp: BList_defs split: if_splits)

subsection \<open>BDictionary\<close>

definition BStringByValueComparator :: "string \<Rightarrow> string \<Rightarrow> bool" where
  "BStringByValueComparator lhs rhs \<longleftrightarrow> lhs < rhs"

definition BDictionary_create :: bdict where
  "BDictionary_create = []"

definition BDictionary_size :: "bdict \<Rightarrow> nat" where
  "BDictionary_size d = length d"

definition BDictionary_empty :: "bdict \<Rightarrow> bool" where
  "BDictionary_empty d \<longleftrightarrow> d = []"

text \<open>
  Storing through the reference \<open>operator[]\<close> returns: the entry whose key is equivalent
  under the comparator gets the value and keeps its key object, otherwise a new entry is
  inserted at its place in the order.
\<close>

fun dict_put :: "string \<Rightarrow> item_ptr \<Rightarrow> bdict \<Rightarrow> bdict" where
  "dict_put k v [] = [(k, v)]"
| "dict_put k v ((k', v') # d) =
     (if BStringByValueComparator k k' then (k, v) # (k', v') # d
      else if BStringByValueComparator k' k then (k', v') # dict_put k v d
      else (k', v) # d)"

fun dict_find :: "string \<Rightarrow> bdict \<Rightarrow> item_ptr option" where
  "dict_find k [] = None"
| "dict_find k ((k', v) # d) =
     (if BStringByValueComparator k' k then dict_find k d
      else if BStringByValueComparator k k' then None else Some v)"

text \<open>\<open>operator[]\<close> read as a value: a missing key is inserted with a null pointer.\<close>

definition BDictionary_subscript :: "string \<Rightarrow> bdict \<Rightarrow> item_ptr \<times> bdict" where
  "BDictionary_subscript k d =
     (case dict_find k d of Some v \<Rightarrow> (v, d) | None \<Rightarrow> (None, dict_put k None d))"

text \<open>Construction from an initializer list: of two equivalent keys the first one wins.\<close>

primrec dict_insert_items :: "bdict \<Rightarrow> bdict \<Rightarrow> bdict" where
  "dict_insert_items [] d = d"
| "dict_insert_items (e # es) d =
     dict_insert_items es
       (case dict_find (fst e) d of Some _ \<Rightarrow> d | None \<Rightarrow> dict_put (fst e) (snd e) d)"

definition BDictionary_create_items :: "bdict \<Rightarrow> bdict" where
  "BDictionary_create_items items = dict_insert_items items BDictionary_create"

definition dict_sorted :: "bdict \<Rightarrow> bool" where
  "dict_sorted d \<longleftrightarrow> sorted_wrt BStringByValueComparator (map fst d)"

subsection \<open>The interface of an ordered dictionary\<close>

text \<open>
  What the code that builds and reads dictionaries relies on: storing keeps the order
  invariant, a lookup after a store finds the new value under that key and the old value
  under every other key, and the entries in iteration order are exactly what lookups find.
\<close>

locale ordered_dict =
  fixes emp :: 'd
    and put :: "'k::linorder \<Rightarrow> 'v \<Rightarrow> 'd \<Rightarrow> 'd"
    and find :: "'k \<Rightarrow> 'd \<Rightarrow> 'v option"
    and entries :: "'d \<Rightarrow> ('k \<times> 'v) list"
    and inv :: "'d \<Rightarrow> bool"
  assumes inv_emp: "inv emp"
    and inv_put: "inv d \<Longrightarrow> inv (put k v d)"
    and find_emp: "find k emp = None"
    and find_put: "inv d \<Longrightarrow> find k' (put k v d) = (if k' = k then Some v else find k' d)"
    and entries_sorted: "inv d \<Longrightarrow> sorted_wrt (<) (map fst (entries d))"
    and entries_find: "inv d \<Longrightarrow> map_of (entries d) k = find k d"
begin

definition puts :: "('k \<times> 'v) list \<Rightarrow> 'd \<Rightarrow> 'd" where
  "puts kvs d = foldl (\<lambda>d (k, v). put k v d) d kvs"

lemma puts_simps [simp]:
  "puts [] d = d" "puts ((k, v) # kvs) d = puts kvs (put k v d)"
  by (simp_all add: puts_def)

lemma puts_append: "puts (xs @ ys) d = puts ys (puts xs d)"
  by (simp add: puts_def)

lemma inv_puts: "inv d \<Longrightarrow> inv (puts kvs d)"
  by (induction kvs arbitrary: d) (auto simp: inv_put)

text \<open>After any sequence of stores, the last one under a key wins.\<close>

lemma find_puts:
  "inv d \<Longrightarrow> find k (puts kvs d) =
     (case map_of (rev kvs) k of Some v \<Rightarrow> Some v | None \<Rightarrow> find k d)"
  by (induction kvs arbitrary: d)
    (auto simp: inv_put find_put map_add_def split: option.splits)

text \<open>The contents determine the representation.\<close>

lemma entries_determined:
  assumes "inv d" and "inv d'" and "\<And>k. find k d = find k d'"
  shows "entries d = entries d'"
proof (rule map_of_strict_sorted_unique)
  show "sorted_wrt (<) (map fst (entries d))" "sorted_wrt (<) (map fst (entries d'))"
    using assms(1,2) by (simp_all add: entries_sorted)
  show "map_of (entries d) = map_of (entries d')"
    using assms by (auto simp: entries_find)
qed

end

subsection \<open>BDictionary provides it\<close>

lemma comparator_less [simp]: "BStringByValueComparator k k' \<longleftrightarrow> k < k'"
  by (simp add: BStringByValueComparator_def)

lemma dict_sorted_less: "dict_sorted d \<longleftrightarrow> sorted_wrt (<) (map fst d)"
proof -
  have "BStringByValueComparator = (<)" by (intro ext) simp
  then show ?thesis by (simp add: dict_sorted_def)
qed

lemma dict_put_keys: "fst ` set (dict_put k v d) = insert k (fst ` set d)"
  by (induction k v d rule: dict_put.induct) auto

lemma dict_put_sorted: "dict_sorted d \<Longrightarrow> dict_sorted (dict_put k v d)"
  unfolding dict_sorted_less
proof (induction k v d rule: dict_put.induct)
  case (2 k v k' v' d)
  then show ?case
    using dict_put_keys [of k v d] by auto
qed simp

lemma dict_find_map_of: "dict_sorted d \<Longrightarrow> dict_find k d = map_of d k"
  unfolding dict_sorted_less
proof (induction k d rule: dict_find.induct)
  case (2 k k' v d)
  then have "map_of d k = None" if "k < k'"
    using that by (force simp: map_of_eq_None_iff)
  with 2 show ?case by auto
qed simp

lemma dict_put_map_of:
  "dict_sorted d \<Longrightarrow> map_of (dict_put k v d) k' = (if k' = k then Some v else map_of d k')"
  by (induction k v d rule: dict_put.induct) (auto simp: dict_sorted_less)

interpretation bdict: ordered_dict BDictionary_create dict_put dict_find "\<lambda>d. d" dict_sorted
proof
  show "dict_sorted BDictionary_create"
    by (simp add: dict_sorted_def BDictionary_create_def)
  show "dict_find k BDictionary_create = None" for k
    by (simp add: BDictionary_create_def)
next
  fix d k k' and v :: item_ptr
  assume d: "dict_sorted d"
  show "dict_sorted (dict_put k v d)" using d by (rule dict_put_sorted)
  show "dict_find k' (dict_put k v d) = (if k' = k then Some v else dict_find k' d)"
    using d dict_put_sorted [OF d] by (simp add: dict_find_map_of dict_put_map_of)
  show "sorted_wrt (<) (map fst d)" using d by (simp add: dict_sorted_less)
  show "map_of d k = dict_find k d" using d by (simp add: dict_find_map_of)
qed

text \<open>Storing entries whose keys come in increasing order only appends.\<close>

lemma dict_put_snoc: "(\<forall>k' \<in> fst ` set d. k' < k) \<Longrightarrow> dict_put k v d = d @ [(k, v)]"
  by (induction k v d rule: dict_put.induct) auto

lemma dict_puts_sorted_append: "dict_sorted (acc @ d) \<Longrightarrow> bdict.puts d acc = acc @ d"
proof (induction d arbitrary: acc)
  case (Cons a d)
  obtain k v where a: "a = (k, v)" by (cases a)
  have "dict_put k v acc = acc @ [(k, v)]"
    using Cons.prems by (intro dict_put_snoc) (auto simp: a dict_sorted_less sorted_wrt_append)
  with Cons.IH [of "acc @ [(k, v)]"] Cons.prems show ?case by (simp add: a)
qed simp

lemma dict_puts_sorted: "dict_sorted d \<Longrightarrow> bdict.puts d [] = d"
  using dict_puts_sorted_append [of "[]" d] by simp

subsection \<open>Well-formed items\<close>

text \<open>
  Items without null pointers whose dictionaries are in order: what the library's own
  operations build.
\<close>

fun wf_bitem :: "bitem \<Rightarrow> bool" where
  "wf_bitem (BInteger _) = True"
| "wf_bitem (BString _) = True"
| "wf_bitem (BList xs) = list_all (\<lambda>p. case p of None \<Rightarrow> False | Some y \<Rightarrow> wf_bitem y) xs"
| "wf_bitem (BDictionary d) =
     (dict_sorted d \<and> list_all (\<lambda>e. case snd e of None \<Rightarrow> False | Some y \<Rightarrow> wf_bitem y) d)"

text \<open>The longest string in an item, keys included: what a decoder must be able to allocate.\<close>

fun strings_within :: "nat \<Rightarrow> bitem \<Rightarrow> bool" where
  "strings_within n (BInteger _) = True"
| "strings_within n (BString s) = (length s \<le> n)"
| "strings_within n (BList xs) =
     list_all (\<lambda>p. case p of None \<Rightarrow> True | Some y \<Rightarrow> strings_within n y) xs"
| "strings_within n (BDictionary d) =
     list_all (\<lambda>e. length (fst e) \<le> n \<and>
       (case snd e of None \<Rightarrow> True | Some y \<Rightarrow> strings_within n y)) d"

end
