(* ===== verification/CppStream.thy ===== *)
theory CppStream
  imports Decimal
begin

text \<open>
  The input stream the bencoding library reads from, with the state bits its code depends
  on, and the helpers of \<open>Utils.h\<close> and \<open>Utils.cpp\<close>: \<open>readUpTo\<close>, \<open>readUntil\<close>, \<open>strToNum\<close>
  (at its two instances) and \<open>replace\<close>. An \<open>int_type\<close> result of the stream is a \<open>char option\<close>,
  \<open>None\<close> being end of file.
\<close>

subsection \<open>std::istream\<close>

record istream =
  buf :: string
  eofbit :: bool
  failbit :: bool

definition istringstream :: "string \<Rightarrow> istream" where
  "istringstream s = \<lparr>buf = s, eofbit = False, failbit = False\<rparr>"

definition good :: "istream \<Rightarrow> bool" where
  "good s \<longleftrightarrow> \<not> eofbit s \<and> \<not> failbit s"

definition peek :: "istream \<Rightarrow> char option \<times> istream" where
  "peek s =
     (if good s
      then (case buf s of [] \<Rightarrow> (None, s\<lparr>eofbit := True\<rparr>) | c # _ \<Rightarrow> (Some c, s))
      else (None, s\<lparr>failbit := True\<rparr>))"

definition get_char :: "istream \<Rightarrow> char option \<times> istream" where
  "get_char s =
     (if good s
      then (case buf s of
              [] \<Rightarrow> (None, s\<lparr>eofbit := True, failbit := True\<rparr>)
            | c # cs \<Rightarrow> (Some c, s\<lparr>buf := cs\<rparr>))
      else (None, s\<lparr>failbit := True\<rparr>))"

definition read_n :: "istream \<Rightarrow> nat \<Rightarrow> string \<times> istream" where
  "read_n s n =
     (if good s
      then if n \<le> length (buf s) then (take n (buf s), s\<lparr>buf := drop n (buf s)\<rparr>)
           else (buf s, s\<lparr>buf := [], eofbit := True, failbit := True\<rparr>)
      else ([], s\<lparr>failbit := True\<rparr>))"

text \<open>\<open>static_cast<char>\<close> of an \<open>int_type\<close>: end of file is -1, so the byte 255.\<close>

definition char_cast :: "char option \<Rightarrow> char" where
  "char_cast c = (case c of None \<Rightarrow> CHR 0xFF | Some x \<Rightarrow> x)"

lemma istringstream_simps [simp]:
  "buf (istringstream s) = s" "good (istringstream s)"
  "eofbit (istringstream s) = False" "failbit (istringstream s) = False"
  by (simp_all add: istringstream_def good_def)

lemma istringstream_eq: "good s \<Longrightarrow> buf s = cs \<Longrightarrow> s = istringstream cs"
  by (cases s) (simp add: istringstream_def good_def)

lemma good_istringstream: "good s \<Longrightarrow> istringstream (buf s) = s"
  by (cases s) (simp add: istringstream_def good_def)

lemma istringstream_buf_update [simp]: "istringstream s\<lparr>buf := t\<rparr> = istringstream t"
  by (simp add: istringstream_def)

lemma peek_simps [simp]:
  "peek (istringstream (c # cs)) = (Some c, istringstream (c # cs))"
  "peek (istringstream []) = (None, \<lparr>buf = [], eofbit = True, failbit = False\<rparr>)"
  by (simp_all add: peek_def istringstream_def good_def)

lemma get_char_simps [simp]:
  "get_char (istringstream (c # cs)) = (Some c, istringstream cs)"
  by (simp add: get_char_def)

lemma read_n_simps [simp]:
  "read_n (istringstream (xs @ ys)) (length xs) = (xs, istringstream ys)"
  by (simp add: read_n_def)

lemma peek_SomeD:
  "peek s = (Some c, s') \<Longrightarrow> s' = s \<and> good s \<and> buf s = c # tl (buf s)"
  by (auto simp: peek_def split: if_splits list.splits)

lemma peek_buf [simp]: "buf (snd (peek s)) = buf s"
  by (auto simp: peek_def split: list.splits)

lemma get_char_buf: "length (buf (snd (get_char s))) \<le> length (buf s)"
  by (auto simp: get_char_def split: list.splits)

lemma get_char_SomeD:
  "get_char s = (Some c, s') \<Longrightarrow> good s \<and> buf s = c # buf s' \<and> good s'"
  by (auto simp: get_char_def good_def split: if_splits list.splits)

lemma read_n_buf: "length (buf (snd (read_n s n))) \<le> length (buf s)"
  by (auto simp: read_n_def)

subsection \<open>Utils.cpp\<close>

text \<open>The loop of \<open>readUpTo\<close>: stop at end of file or at the sentinel, which stays unread.\<close>

function read_up_to :: "istream \<Rightarrow> string \<Rightarrow> char \<Rightarrow> string \<times> istream" where
  "read_up_to s acc z =
     (case peek s of
        (None, s1) \<Rightarrow> (acc, s1)
      | (Some c, s1) \<Rightarrow>
          if c = z then (acc, s1)
          else (case get_char s1 of (g, s2) \<Rightarrow> read_up_to s2 (acc @ [char_cast g]) z))"
  by pat_completeness auto
termination
  by (relation "measure (\<lambda>(s, acc, z). length (buf s))")
    (auto simp: get_char_def dest!: peek_SomeD [OF sym] split: if_splits list.splits)

definition readUpTo :: "istream \<Rightarrow> string \<Rightarrow> char \<Rightarrow> bool \<times> string \<times> istream" where
  "readUpTo s readData sentinel =
     (case read_up_to s readData sentinel of (acc, s1) \<Rightarrow>
        if failbit s1 then (False, acc, s1)
        else (case peek s1 of (p, s2) \<Rightarrow> (p = Some sentinel, acc, s2)))"

function readUntil :: "istream \<Rightarrow> string \<Rightarrow> char \<Rightarrow> bool \<times> string \<times> istream" where
  "readUntil s readData z =
     (case get_char s of
        (None, s1) \<Rightarrow> (False, readData, s1)
      | (Some c, s1) \<Rightarrow>
          if c = z then (True, readData @ [c], s1) else readUntil s1 (readData @ [c]) z)"
  by pat_completeness auto
termination
  by (relation "measure (\<lambda>(s, acc, z). length (buf s))") (auto dest!: get_char_SomeD [OF sym])

declare read_up_to.simps [simp del] readUntil.simps [simp del]

primrec replace_char :: "string \<Rightarrow> char \<Rightarrow> string \<Rightarrow> string" where
  "replace_char [] what withWhat = []"
| "replace_char (c # cs) what withWhat =
     (if c = what then withWhat else [c]) @ replace_char cs what withWhat"

subsection \<open>strToNum\<close>

text \<open>
  Formatted extraction of an integer from a fresh stream over \<open>str\<close>: leading whitespace is
  skipped, then an optional sign and the longest run of digits are taken. The extraction
  fails without digits or when the value does not fit, and the stream is at its end exactly
  when nothing follows the digits. For an unsigned target a minus sign negates modulo the
  word size. On failure the caller's variable \<open>num\<close> keeps its value.
\<close>

definition scan_int :: "string \<Rightarrow> bool \<times> string \<times> string" where
  "scan_int str =
     (let s = dropWhile is_space str;
          signed = (s \<noteq> [] \<and> (hd s = CHR ''-'' \<or> hd s = CHR ''+''));
          body = (if signed then tl s else s)
      in (s \<noteq> [] \<and> hd s = CHR ''-'', takeWhile is_digit body, dropWhile is_digit body))"

definition strToNum_int64 :: "string \<Rightarrow> int64 \<Rightarrow> bool \<times> int64" where
  "strToNum_int64 str num =
     (case scan_int str of (neg, ds, rest) \<Rightarrow>
        let v = (if neg then - int (dec_value ds) else int (dec_value ds)) in
        if ds \<noteq> [] \<and> - (2 ^ 63) \<le> v \<and> v < 2 ^ 63 \<and> rest = [] then (True, word_of_int v)
        else (False, num))"

definition strToNum_size :: "string \<Rightarrow> int64 \<Rightarrow> bool \<times> int64" where
  "strToNum_size str num =
     (case scan_int str of (neg, ds, rest) \<Rightarrow>
        if ds \<noteq> [] \<and> dec_value ds < 2 ^ 64 \<and> rest = []
        then (True, if neg then - of_nat (dec_value ds) else of_nat (dec_value ds))
        else (False, num))"

text \<open>Evaluation compares with \<open>2 ^ 64\<close> as an integer, not as a natural number in unary.\<close>

lemma strToNum_size_code [code]:
  "strToNum_size str num =
     (case scan_int str of (neg, ds, rest) \<Rightarrow>
        let v = int (dec_value ds) in
        if ds \<noteq> [] \<and> v < 2 ^ 64 \<and> rest = [] then (True, if neg then - word_of_int v else word_of_int v)
        else (False, num))"
  by (simp add: strToNum_size_def Let_def del: power_numeral split: prod.split)

subsection \<open>Behaviour of the helpers\<close>

lemma read_up_to_run:
  assumes "z \<notin> set xs"
  shows "read_up_to (istringstream (xs @ z # ys)) acc z = (acc @ xs, istringstream (z # ys))"
  using assms
proof (induction xs arbitrary: acc)
  case Nil
  then show ?case by (simp add: read_up_to.simps)
next
  case (Cons x xs)
  then show ?case by (subst read_up_to.simps) (auto simp: char_cast_def)
qed

lemma readUpTo_found:
  "z \<notin> set xs \<Longrightarrow> readUpTo (istringstream (xs @ z # ys)) acc z =
     (True, acc @ xs, istringstream (z # ys))"
  by (simp add: readUpTo_def read_up_to_run)

lemma read_up_to_missing:
  "z \<notin> set xs \<Longrightarrow> read_up_to (istringstream xs) acc z =
     (acc @ xs, \<lparr>buf = [], eofbit = True, failbit = False\<rparr>)"
proof (induction xs arbitrary: acc)
  case Nil
  then show ?case by (simp add: read_up_to.simps)
next
  case (Cons x xs)
  then show ?case by (subst read_up_to.simps) (auto simp: char_cast_def)
qed

lemma readUpTo_missing:
  "z \<notin> set xs \<Longrightarrow> readUpTo (istringstream xs) acc z =
     (False, acc @ xs, \<lparr>buf = [], eofbit = True, failbit = True\<rparr>)"
  by (simp add: readUpTo_def read_up_to_missing peek_def good_def)

lemma readUntil_found:
  "z \<notin> set xs \<Longrightarrow> readUntil (istringstream (xs @ z # ys)) acc z =
     (True, acc @ xs @ [z], istringstream ys)"
proof (induction xs arbitrary: acc)
  case Nil
  then show ?case by (simp add: readUntil.simps)
next
  case (Cons x xs)
  then show ?case by (subst readUntil.simps) auto
qed

lemma readUntil_missing:
  "z \<notin> set xs \<Longrightarrow> readUntil (istringstream xs) acc z =
     (False, acc @ xs, \<lparr>buf = [], eofbit = True, failbit = True\<rparr>)"
proof (induction xs arbitrary: acc)
  case Nil
  then show ?case by (simp add: readUntil.simps get_char_def istringstream_def good_def)
next
  case (Cons x xs)
  then show ?case by (subst readUntil.simps) auto
qed

lemma scan_int_nat_dec: "scan_int (nat_dec n) = (False, nat_dec n, [])"
proof -
  have "\<not> is_space (hd (nat_dec n))" "hd (nat_dec n) \<noteq> CHR ''-''" "hd (nat_dec n) \<noteq> CHR ''+''"
    using nat_dec_not_special [of "hd (nat_dec n)" n] by simp_all
  moreover from this have "dropWhile is_space (nat_dec n) = nat_dec n"
    by (cases "nat_dec n") simp_all
  ultimately show ?thesis
    using takeWhile_nat_dec [of "[]" n] by (simp add: scan_int_def Let_def)
qed

lemma scan_int_minus_nat_dec: "scan_int (CHR ''-'' # nat_dec n) = (True, nat_dec n, [])"
  using takeWhile_nat_dec [of "[]" n] by (simp add: scan_int_def Let_def is_space_def)

lemma strToNum_size_nat_dec: "n < 2 ^ 64 \<Longrightarrow> strToNum_size (nat_dec n) num = (True, of_nat n)"
  by (simp add: strToNum_size_def scan_int_nat_dec)

lemma strToNum_int64_int_dec:
  "- (2 ^ 63) \<le> i \<Longrightarrow> i < 2 ^ 63 \<Longrightarrow> strToNum_int64 (int_dec i) num = (True, word_of_int i)"
  by (cases "i < 0")
    (simp_all add: strToNum_int64_def int_dec_def scan_int_nat_dec scan_int_minus_nat_dec)

lemma read_up_to_length: "length (buf (snd (read_up_to s acc z))) \<le> length (buf s)"
proof (induction s acc z rule: read_up_to.induct)
  case (1 s acc z)
  show ?case
  proof (cases "peek s")
    case (Pair p s1)
    show ?thesis
    proof (cases p)
      case None
      with Pair show ?thesis using peek_buf [of s] by (subst read_up_to.simps) simp
    next
      case (Some c)
      with Pair have s1: "s1 = s" using peek_SomeD by blast
      show ?thesis
      proof (cases "c = z")
        case True
        with Pair Some s1 show ?thesis by (subst read_up_to.simps) simp
      next
        case False
        obtain g s2 where g: "get_char s1 = (g, s2)" by (cases "get_char s1")
        have "length (buf s2) \<le> length (buf s)" using get_char_buf [of s1] g s1 by simp
        moreover have "length (buf (snd (read_up_to s2 (acc @ [char_cast g]) z))) \<le> length (buf s2)"
          using "1" [OF Pair [symmetric] Some False g [symmetric]] by simp
        ultimately show ?thesis
          using Pair Some False g by (subst read_up_to.simps) simp
      qed
    qed
  qed
qed

lemma readUpTo_length: "readUpTo s acc z = (b, str, s') \<Longrightarrow> length (buf s') \<le> length (buf s)"
  using read_up_to_length [of s acc z]
  using peek_buf [of "snd (read_up_to s acc z)"]
  by (auto simp: readUpTo_def simp del: peek_buf split: prod.splits if_splits)

lemma readUntil_length:
  "readUntil s acc z = (b, str, s') \<Longrightarrow> length (buf s') \<le> length (buf s) \<and> (b \<longrightarrow> length (buf s') < length (buf s))"
proof (induction s acc z rule: readUntil.induct)
  case (1 s acc z)
  obtain g s1 where g: "get_char s = (g, s1)" by (cases "get_char s")
  show ?case
  proof (cases g)
    case None
    with "1.prems" g get_char_buf [of s] show ?thesis by (subst (asm) readUntil.simps) auto
  next
    case (Some c)
    with g have "buf s = c # buf s1" using get_char_SomeD by blast
    moreover have "readUntil s acc z =
        (if c = z then (True, acc @ [c], s1) else readUntil s1 (acc @ [c]) z)"
      using g Some by (subst readUntil.simps) simp
    ultimately show ?thesis
      using "1.prems" "1.IH" [OF g [symmetric] Some] by (auto split: if_splits)
  qed
qed

subsection \<open>Exactly the numerals are numbers\<close>

definition signed_numeral :: "string \<Rightarrow> string \<Rightarrow> bool" where
  "signed_numeral sg ds \<longleftrightarrow> sg \<in> {[], ''-'', ''+''} \<and> ds \<noteq> [] \<and> list_all is_digit ds"

definition signed_value :: "string \<Rightarrow> string \<Rightarrow> int" where
  "signed_value sg ds = (if sg = ''-'' then - int (dec_value ds) else int (dec_value ds))"

lemma scan_int_complete:
  assumes "list_all is_space sp" and "signed_numeral sg ds"
  shows "scan_int (sp @ sg @ ds) = (sg = ''-'', ds, [])"
proof -
  have ds: "\<not> is_space (hd ds)" "hd ds \<noteq> CHR ''-''" "hd ds \<noteq> CHR ''+''" "ds \<noteq> []"
    using assms(2) digit_not_special [of "hd ds"] by (auto simp: signed_numeral_def list_all_iff)
  have sg: "sg \<in> {[], ''-'', ''+''}" using assms(2) by (simp add: signed_numeral_def)
  with ds have "dropWhile is_space (sg @ ds) = sg @ ds"
    by (cases ds) (auto simp: is_space_def)
  then have "dropWhile is_space (sp @ sg @ ds) = sg @ ds"
    using assms(1) by (simp add: dropWhile_append2 list_all_iff)
  moreover have "takeWhile is_digit ds = ds" "dropWhile is_digit ds = []"
    using assms(2) by (simp_all add: signed_numeral_def list_all_iff takeWhile_eq_all_conv dropWhile_eq_Nil_conv)
  ultimately show ?thesis using sg ds by (auto simp: scan_int_def Let_def)
qed

lemma scan_int_sound:
  assumes "scan_int str = (neg, ds, [])" and "ds \<noteq> []"
  shows "\<exists>sp sg. str = sp @ sg @ ds \<and> list_all is_space sp \<and> signed_numeral sg ds \<and> neg = (sg = ''-'')"
proof -
  define s where "s = dropWhile is_space str"
  define sg where "sg = (if s \<noteq> [] \<and> (hd s = CHR ''-'' \<or> hd s = CHR ''+'') then [hd s] else [])"
  define body where "body = drop (length sg) s"
  have s: "s = sg @ body" by (cases s) (auto simp: sg_def body_def)
  have b: "takeWhile is_digit body = ds" "dropWhile is_digit body = []" "neg = (sg = ''-'')"
    using assms(1) by (auto simp: scan_int_def Let_def drop_Suc s_def [symmetric] sg_def body_def split: if_splits)
  then have body: "body = ds" using takeWhile_dropWhile_id [of is_digit body] by (metis append_Nil2)
  have "list_all is_digit ds" unfolding b(1) [symmetric] by (auto simp: list_all_iff dest: set_takeWhileD)
  moreover have "list_all is_space (takeWhile is_space str)" by (auto simp: list_all_iff dest: set_takeWhileD)
  moreover have "str = takeWhile is_space str @ sg @ ds" using s body s_def by (metis takeWhile_dropWhile_id)
  moreover have "sg \<in> {[], ''-'', ''+''}" by (simp add: sg_def)
  ultimately show ?thesis using assms(2) b(3) unfolding signed_numeral_def by blast
qed

lemma numerals_iff:
  assumes "scan_int str = (neg, ds, rest)"
  shows "(\<exists>sp sg ds. str = sp @ sg @ ds \<and> list_all is_space sp \<and> signed_numeral sg ds \<and>
      rng (signed_value sg ds) (dec_value ds) \<and> v = f (signed_value sg ds)) \<longleftrightarrow>
    ds \<noteq> [] \<and> rest = [] \<and> rng (if neg then - int (dec_value ds) else int (dec_value ds)) (dec_value ds) \<and>
      v = f (if neg then - int (dec_value ds) else int (dec_value ds))" (is "?L \<longleftrightarrow> ?R")
proof
  assume ?L
  then obtain sp sg ds' where *: "str = sp @ sg @ ds'" "list_all is_space sp" "signed_numeral sg ds'"
    "rng (signed_value sg ds') (dec_value ds')" "v = f (signed_value sg ds')" by blast
  with scan_int_complete [OF *(2,3)] assms have "neg = (sg = ''-'')" "ds = ds'" "rest = []" by simp_all
  with * show ?R by (cases neg) (simp_all add: signed_numeral_def signed_value_def)
next
  assume r: ?R
  with scan_int_sound [of str neg ds] assms obtain sp sg where
    "str = sp @ sg @ ds" "list_all is_space sp" "signed_numeral sg ds" "neg = (sg = ''-'')" by auto
  with r show ?L by (intro exI [of _ sp] exI [of _ sg] exI [of _ ds]) (simp add: signed_value_def)
qed

text \<open>C40: \<open>strToNum\<close> accepts exactly these texts: blanks, an optional sign and at least one digit up to the end
  of the text; for \<open>int64_t\<close> with a value of the type, for \<open>size_t\<close> with digits below \<open>2 ^ 64\<close>, where a minus
  sign is accepted and wraps around. Any other text leaves the variable as it was. What \<open>std::to_string\<close>
  prints of a value of either type is read back as that value.\<close>

theorem strToNum_reads_exactly:
  "((strToNum_int64 str num = (True, v)) =
      (\<exists>sp sg ds. str = sp @ sg @ ds \<and> list_all is_space sp \<and> signed_numeral sg ds \<and>
         - (2 ^ 63) \<le> signed_value sg ds \<and> signed_value sg ds < 2 ^ 63 \<and> v = word_of_int (signed_value sg ds))) \<and>
   ((strToNum_size str num = (True, v)) =
      (\<exists>sp sg ds. str = sp @ sg @ ds \<and> list_all is_space sp \<and> signed_numeral sg ds \<and>
         dec_value ds < 2 ^ 64 \<and> v = word_of_int (signed_value sg ds))) \<and>
   strToNum_int64 str num \<in> {(True, v) | v. True} \<union> {(False, num)} \<and>
   strToNum_size str num \<in> {(True, v) | v. True} \<union> {(False, num)} \<and>
   strToNum_int64 (int_dec (sint v)) num = (True, v) \<and>
   strToNum_size (nat_dec (unat v)) num = (True, v)"
proof (intro conjI)
  obtain neg ds rest where sc: "scan_int str = (neg, ds, rest)" by (cases "scan_int str")
  show "(strToNum_int64 str num = (True, v)) = (\<exists>sp sg ds. str = sp @ sg @ ds \<and> list_all is_space sp \<and>
      signed_numeral sg ds \<and> - (2 ^ 63) \<le> signed_value sg ds \<and> signed_value sg ds < 2 ^ 63 \<and>
      v = word_of_int (signed_value sg ds))"
    unfolding numerals_iff [OF sc, of "\<lambda>i n. - (2 ^ 63) \<le> i \<and> i < 2 ^ 63" v word_of_int, unfolded conj_assoc]
    by (cases neg) (simp_all add: strToNum_int64_def sc Let_def conj_ac eq_commute [of v] del: power_numeral)
  show "(strToNum_size str num = (True, v)) = (\<exists>sp sg ds. str = sp @ sg @ ds \<and> list_all is_space sp \<and>
      signed_numeral sg ds \<and> dec_value ds < 2 ^ 64 \<and> v = word_of_int (signed_value sg ds))"
    unfolding numerals_iff [OF sc, of "\<lambda>i n. n < 2 ^ 64" v word_of_int]
    by (cases neg) (simp_all add: strToNum_size_def sc Let_def conj_ac eq_commute [of v] del: power_numeral)
  show "strToNum_int64 str num \<in> {(True, v) | v. True} \<union> {(False, num)}"
    by (simp add: strToNum_int64_def sc Let_def del: power_numeral)
  show "strToNum_size str num \<in> {(True, v) | v. True} \<union> {(False, num)}"
    by (simp add: strToNum_size_def sc Let_def del: power_numeral)
  show "strToNum_int64 (int_dec (sint v)) num = (True, v)"
    using strToNum_int64_int_dec [of "sint v" num] sint_ge [of v] sint_lt [of v] by simp
  show "strToNum_size (nat_dec (unat v)) num = (True, v)"
  proof -
    have "unat v < 2 ^ LENGTH(64)" by (rule unsigned_less)
    then show ?thesis using strToNum_size_nat_dec [of "unat v" num] by simp
  qed
qed

end
