(* ===== verification/BDecoder.thy ===== *)
theory BDecoder
  imports BItems CppStream
begin

text \<open>
  The decoder of the bencoding library. A function that may throw returns a sum: \<open>Inl\<close> is
  the exception. \<open>DecodingError\<close> carries its message; \<open>AllocError\<close> is the \<open>std::length_error\<close>
  or \<open>std::bad_alloc\<close> of a string that is too large for the process. The recursive functions
  take a fuel bound; \<open>decode_stream\<close> supplies one that \<open>decode_no_fuel_error\<close> shows to be enough.
\<close>

datatype decode_exn = DecodingError string | AllocError | DecoderFuel

text \<open>
  What the decoder takes from its process: the largest string that can be allocated, and the
  contents of the uninitialised local variable of \<open>decodeEncodedInteger\<close> (per call, the
  calls of one run being told apart by how much input is left).
\<close>

record cpp_env =
  max_alloc :: nat
  garbage :: "nat \<Rightarrow> int64"

definition quoted :: "string \<Rightarrow> string" where
  "quoted s = [CHR 0x27] @ s @ [CHR 0x27]"

definition readExpectedChar :: "istream \<Rightarrow> char \<Rightarrow> decode_exn + istream" where
  "readExpectedChar input expected_char =
     (case get_char input of (c, s) \<Rightarrow>
        if c \<noteq> Some expected_char
        then Inl (DecodingError (''expected '' @ quoted [expected_char] @ '', got '' @
               quoted [char_cast c]))
        else Inr s)"

subsection \<open>Integers\<close>

definition readEncodedInteger :: "istream \<Rightarrow> decode_exn + string \<times> istream" where
  "readEncodedInteger input =
     (case readUntil input [] CHR ''e'' of (ok, encodedInteger, s) \<Rightarrow>
        if \<not> ok
        then Inl (DecodingError (''error during the decoding of an integer near '' @
               quoted encodedInteger))
        else Inr (encodedInteger, s))"

text \<open>
  The match of the regular expression \<open>i([-+]?(0|[1-9][0-9]*))e\<close> against the whole text;
  the result is the first group.
\<close>

definition integer_digits :: "string \<Rightarrow> bool" where
  "integer_digits ds \<longleftrightarrow> ds = ''0'' \<or>
     (ds \<noteq> [] \<and> hd ds \<noteq> CHR ''0'' \<and> list_all is_digit ds)"

definition match_integer :: "string \<Rightarrow> string option" where
  "match_integer str =
     (if length str \<ge> 2 \<and> hd str = CHR ''i'' \<and> last str = CHR ''e''
      then let grp = butlast (tl str);
               ds = (if grp \<noteq> [] \<and> (hd grp = CHR ''-'' \<or> hd grp = CHR ''+'')
                     then tl grp else grp)
           in if integer_digits ds then Some grp else None
      else None)"

text \<open>The result of \<open>strToNum\<close> is ignored: a number out of range leaves the variable as it was.\<close>

definition decodeEncodedInteger :: "int64 \<Rightarrow> string \<Rightarrow> decode_exn + bitem" where
  "decodeEncodedInteger integerValue0 encodedInteger =
     (case match_integer encodedInteger of
        None \<Rightarrow> Inl (DecodingError (''encountered an encoded integer of invalid format: '' @
                 quoted encodedInteger))
      | Some grp \<Rightarrow> Inr (BInteger (snd (strToNum_int64 grp integerValue0))))"

definition decodeInteger :: "cpp_env \<Rightarrow> istream \<Rightarrow> decode_exn + bitem \<times> istream" where
  "decodeInteger env input =
     and_then (readEncodedInteger input) (\<lambda>(encodedInteger, s).
     and_then (decodeEncodedInteger (garbage env (length (buf s))) encodedInteger) (\<lambda>x.
     Inr (x, s)))"

subsection \<open>Strings\<close>

definition readStringLength :: "istream \<Rightarrow> decode_exn + nat \<times> istream" where
  "readStringLength input =
     (case readUpTo input [] CHR '':'' of (ok, stringLengthInASCII, s) \<Rightarrow>
        if \<not> ok
        then Inl (DecodingError (''error during the decoding of a string near '' @
               quoted stringLengthInASCII))
        else (case strToNum_size stringLengthInASCII 0 of (valid, stringLength) \<Rightarrow>
          if \<not> valid
          then Inl (DecodingError (''invalid string length: '' @ quoted stringLengthInASCII))
          else Inr (unat stringLength, s)))"

definition readStringOfGivenLength ::
  "cpp_env \<Rightarrow> istream \<Rightarrow> nat \<Rightarrow> decode_exn + string \<times> istream" where
  "readStringOfGivenLength env input len =
     (if max_alloc env < len then Inl AllocError
      else case read_n input len of (str, s) \<Rightarrow>
        if length str \<noteq> len
        then Inl (DecodingError (''expected a string containing '' @ nat_dec len @
               '' characters, but read only '' @ nat_dec (length str) @ '' characters''))
        else Inr (str, s))"

definition decodeString :: "cpp_env \<Rightarrow> istream \<Rightarrow> decode_exn + bitem \<times> istream" where
  "decodeString env input =
     and_then (readStringLength input) (\<lambda>(stringLength, s1).
     and_then (readExpectedChar s1 CHR '':'') (\<lambda>s2.
     and_then (readStringOfGivenLength env s2 stringLength) (\<lambda>(str, s3).
     Inr (BString str, s3))))"

subsection \<open>Items, lists and dictionaries\<close>

text \<open>The check of \<open>decodeDictionaryKey\<close> that the decoded key is a string.\<close>

definition key_as_BString :: "bitem \<Rightarrow> decode_exn + string" where
  "key_as_BString key =
     (case as_BString key of
        None \<Rightarrow> Inl (DecodingError ''found a dictionary key that is not a bencoded string'')
      | Some k \<Rightarrow> Inr k)"

definition unexpected_character :: "istream \<Rightarrow> decode_exn" where
  "unexpected_character s =
     DecodingError (''unexpected character: '' @ quoted [char_cast (fst (peek s))])"

fun decode :: "cpp_env \<Rightarrow> nat \<Rightarrow> istream \<Rightarrow> decode_exn + bitem \<times> istream"
  and decodeDictionary :: "cpp_env \<Rightarrow> nat \<Rightarrow> istream \<Rightarrow> decode_exn + bitem \<times> istream"
  and decodeDictionaryItemsIntoDictionary ::
    "cpp_env \<Rightarrow> nat \<Rightarrow> istream \<Rightarrow> bdict \<Rightarrow> decode_exn + bdict \<times> istream"
  and decodeList :: "cpp_env \<Rightarrow> nat \<Rightarrow> istream \<Rightarrow> decode_exn + bitem \<times> istream"
  and decodeListItemsIntoList ::
    "cpp_env \<Rightarrow> nat \<Rightarrow> istream \<Rightarrow> blist \<Rightarrow> decode_exn + blist \<times> istream" where
  "decode env 0 input = Inl DecoderFuel"
| "decode env (Suc n) input =
     (case peek input of
        (Some c, s) \<Rightarrow>
          if c = CHR ''d'' then decodeDictionary env n s
          else if c = CHR ''i'' then decodeInteger env s
          else if c = CHR ''l'' then decodeList env n s
          else if is_digit c then decodeString env s
          else Inl (unexpected_character s)
      | (None, s) \<Rightarrow> Inl (unexpected_character s))"
| "decodeDictionary env 0 input = Inl DecoderFuel"
| "decodeDictionary env (Suc n) input =
     and_then (readExpectedChar input CHR ''d'') (\<lambda>s1.
     and_then (decodeDictionaryItemsIntoDictionary env n s1 BDictionary_create) (\<lambda>(d, s2).
     and_then (readExpectedChar s2 CHR ''e'') (\<lambda>s3. Inr (BDictionary d, s3))))"
| "decodeDictionaryItemsIntoDictionary env 0 input d = Inl DecoderFuel"
| "decodeDictionaryItemsIntoDictionary env (Suc n) input d =
     (if failbit input then Inr (d, input)
      else case peek input of (p, s) \<Rightarrow>
        if p = Some CHR ''e'' then Inr (d, s)
        else
          and_then (decode env n s) (\<lambda>(key, s1).
          and_then (key_as_BString key) (\<lambda>k.
          and_then (decode env n s1) (\<lambda>(value, s2).
          decodeDictionaryItemsIntoDictionary env n s2 (dict_put k (Some value) d)))))"
| "decodeList env 0 input = Inl DecoderFuel"
| "decodeList env (Suc n) input =
     and_then (readExpectedChar input CHR ''l'') (\<lambda>s1.
     and_then (decodeListItemsIntoList env n s1 BList_create) (\<lambda>(xs, s2).
     and_then (readExpectedChar s2 CHR ''e'') (\<lambda>s3. Inr (BList xs, s3))))"
| "decodeListItemsIntoList env 0 input xs = Inl DecoderFuel"
| "decodeListItemsIntoList env (Suc n) input xs =
     (if failbit input then Inr (xs, input)
      else case peek input of (p, s) \<Rightarrow>
        if p = Some CHR ''e'' then Inr (xs, s)
        else
          and_then (decode env n s) (\<lambda>(x, s1).
          decodeListItemsIntoList env n s1 (xs @ [Some x])))"

text \<open>\<open>decode(std::istream &)\<close> and \<open>decode(const std::string &)\<close>.\<close>

definition decode_stream :: "cpp_env \<Rightarrow> istream \<Rightarrow> decode_exn + bitem \<times> istream" where
  "decode_stream env input = decode env (3 * length (buf input) + 1) input"

definition validateInputDoesNotContainUndecodedCharacters :: "istream \<Rightarrow> decode_exn + unit" where
  "validateInputDoesNotContainUndecodedCharacters input =
     (if fst (peek input) \<noteq> None
      then Inl (DecodingError ''input contains undecoded characters'') else Inr ())"

definition decode_string :: "cpp_env \<Rightarrow> string \<Rightarrow> decode_exn + bitem" where
  "decode_string env data =
     and_then (decode_stream env (istringstream data)) (\<lambda>(x, s).
     and_then (validateInputDoesNotContainUndecodedCharacters s) (\<lambda>_. Inr x))"

subsection \<open>Progress and fuel\<close>

lemma readExpectedChar_InrD:
  "readExpectedChar s c = Inr s' \<Longrightarrow> good s \<and> good s' \<and> buf s = c # buf s'"
  by (auto simp: readExpectedChar_def dest: get_char_SomeD split: prod.splits if_splits)

lemma readEncodedInteger_length:
  "readEncodedInteger s = Inr (str, s') \<Longrightarrow> length (buf s') < length (buf s)"
  by (auto simp: readEncodedInteger_def dest: readUntil_length split: prod.splits if_splits)

lemma decodeInteger_length: "decodeInteger env s = Inr (x, s') \<Longrightarrow> length (buf s') < length (buf s)"
  by (auto simp: decodeInteger_def dest: readEncodedInteger_length elim!: and_then_InrE)

lemma readStringLength_length:
  "readStringLength s = Inr (n, s') \<Longrightarrow> length (buf s') \<le> length (buf s)"
  by (auto simp: readStringLength_def dest: readUpTo_length split: prod.splits if_splits)

lemma readStringOfGivenLength_length:
  "readStringOfGivenLength env s n = Inr (str, s') \<Longrightarrow> length (buf s') \<le> length (buf s)"
  using read_n_buf [of s n]
  by (auto simp: readStringOfGivenLength_def split: prod.splits if_splits)

lemma decodeString_length: "decodeString env s = Inr (x, s') \<Longrightarrow> length (buf s') < length (buf s)"
  by (auto simp: decodeString_def elim!: and_then_InrE
      dest!: readStringLength_length readStringOfGivenLength_length readExpectedChar_InrD)

lemmas decode_lengths = decodeInteger_length decodeString_length

lemma decode_progress:
  shows "decode env n s = Inr (x, s') \<Longrightarrow> length (buf s') < length (buf s)"
    and "decodeDictionary env n s = Inr (x, s') \<Longrightarrow> length (buf s') < length (buf s)"
    and "decodeDictionaryItemsIntoDictionary env n s d = Inr (d', s') \<Longrightarrow>
      length (buf s') \<le> length (buf s)"
    and "decodeList env n s = Inr (x, s') \<Longrightarrow> length (buf s') < length (buf s)"
    and "decodeListItemsIntoList env n s xs = Inr (xs', s') \<Longrightarrow>
      length (buf s') \<le> length (buf s)"
proof (induction n arbitrary: s x s' d d' xs xs')
  case (Suc n)
  {
    case 1
    then show ?case using Suc.IH(2,4)
      by (auto split: prod.splits option.splits if_splits dest!: peek_SomeD dest: decode_lengths)
  next
    case 2
    then obtain s1 d s2 where r: "readExpectedChar s CHR ''d'' = Inr s1"
      "decodeDictionaryItemsIntoDictionary env n s1 BDictionary_create = Inr (d, s2)"
      "readExpectedChar s2 CHR ''e'' = Inr s'"
      by (auto elim!: and_then_InrE)
    from Suc.IH(3) [OF r(2)] readExpectedChar_InrD [OF r(1)] readExpectedChar_InrD [OF r(3)]
    show ?case by simp
  next
    case 3
    obtain p t where p: "peek s = (p, t)" by (cases "peek s")
    then have len: "buf t = buf s" using peek_buf [of s] by simp
    show ?case
    proof (cases "failbit s \<or> p = Some CHR ''e''")
      case True
      with 3 p len show ?thesis by (auto split: if_splits)
    next
      case False
      with 3 p obtain key s1 k v s2 where *: "decode env n t = Inr (key, s1)"
        "decode env n s1 = Inr (v, s2)"
        "decodeDictionaryItemsIntoDictionary env n s2 (dict_put k (Some v) d) = Inr (d', s')"
        by (auto elim!: and_then_InrE)
      from Suc.IH(1) [OF *(1)] Suc.IH(1) [OF *(2)] Suc.IH(3) [OF *(3)] len show ?thesis by simp
    qed
  next
    case 4
    then obtain s1 xs s2 where r: "readExpectedChar s CHR ''l'' = Inr s1"
      "decodeListItemsIntoList env n s1 BList_create = Inr (xs, s2)"
      "readExpectedChar s2 CHR ''e'' = Inr s'"
      by (auto elim!: and_then_InrE)
    from Suc.IH(5) [OF r(2)] readExpectedChar_InrD [OF r(1)] readExpectedChar_InrD [OF r(3)]
    show ?case by simp
  next
    case 5
    obtain p t where p: "peek s = (p, t)" by (cases "peek s")
    then have len: "buf t = buf s" using peek_buf [of s] by simp
    show ?case
    proof (cases "failbit s \<or> p = Some CHR ''e''")
      case True
      with 5 p len show ?thesis by (auto split: if_splits)
    next
      case False
      with 5 p obtain x s1 where *: "decode env n t = Inr (x, s1)"
        "decodeListItemsIntoList env n s1 (xs @ [Some x]) = Inr (xs', s')"
        by (auto elim!: and_then_InrE)
      from Suc.IH(1) [OF *(1)] Suc.IH(5) [OF *(2)] len show ?thesis by simp
    qed
  }
qed simp_all

text \<open>The leaf decoders use no fuel.\<close>

lemma readExpectedChar_fuel [simp]: "readExpectedChar s c \<noteq> Inl DecoderFuel"
  by (auto simp: readExpectedChar_def split: prod.splits)

lemma decodeInteger_fuel [simp]: "decodeInteger env s \<noteq> Inl DecoderFuel"
  by (auto simp: decodeInteger_def readEncodedInteger_def decodeEncodedInteger_def and_then_eq_Inl
      split: prod.splits option.splits)

lemma decodeString_fuel [simp]: "decodeString env s \<noteq> Inl DecoderFuel"
  by (auto simp: decodeString_def readStringLength_def readStringOfGivenLength_def and_then_eq_Inl
      split: prod.splits if_splits)

lemma key_as_BString_fuel [simp]: "key_as_BString k \<noteq> Inl DecoderFuel"
  by (auto simp: key_as_BString_def split: option.splits)

lemma unexpected_character_fuel [simp]: "unexpected_character s \<noteq> DecoderFuel"
  by (simp add: unexpected_character_def)

lemma decode_fuel_enough:
  shows "3 * length (buf s) + 1 \<le> n \<Longrightarrow> decode env n s \<noteq> Inl DecoderFuel"
    and "3 * length (buf s) \<le> n \<Longrightarrow> 0 < n \<Longrightarrow> decodeDictionary env n s \<noteq> Inl DecoderFuel"
    and "3 * length (buf s) + 2 \<le> n \<Longrightarrow>
      decodeDictionaryItemsIntoDictionary env n s d \<noteq> Inl DecoderFuel"
    and "3 * length (buf s) \<le> n \<Longrightarrow> 0 < n \<Longrightarrow> decodeList env n s \<noteq> Inl DecoderFuel"
    and "3 * length (buf s) + 2 \<le> n \<Longrightarrow>
      decodeListItemsIntoList env n s xs \<noteq> Inl DecoderFuel"
proof (induction n arbitrary: s d xs)
  case (Suc n)
  {
    case 1
    show ?case
    proof (cases "peek s")
      case (Pair p t)
      show ?thesis
      proof (cases p)
        case (Some c)
        with Pair have t: "t = s" "buf s \<noteq> []" using peek_SomeD by fastforce+
        then have "3 \<le> 3 * length (buf s)" by (cases "buf s") simp_all
        with 1 have "3 * length (buf s) \<le> n" "0 < n" by simp_all
        with Suc.IH(2,4) show ?thesis by (simp add: Pair Some t)
      qed (simp add: Pair)
    qed
  next
    case 2
    have "decodeDictionaryItemsIntoDictionary env n s1 BDictionary_create \<noteq> Inl DecoderFuel"
      if "readExpectedChar s CHR ''d'' = Inr s1" for s1
      using Suc.IH(3) [of s1] 2 readExpectedChar_InrD [OF that] by simp
    then show ?case by (auto simp: and_then_eq_Inl)
  next
    case 3
    obtain p t where p: "peek s = (p, t)" by (cases "peek s")
    then have len: "buf t = buf s" using peek_buf [of s] by simp
    have d: "decode env n t \<noteq> Inl DecoderFuel" using Suc.IH(1) [of t] 3 len by simp
    have i: "decode env n s1 \<noteq> Inl DecoderFuel" if "decode env n t = Inr (k, s1)" for k s1
      using Suc.IH(1) [of s1] 3 len decode_progress(1) [OF that] by simp
    have r: "decodeDictionaryItemsIntoDictionary env n s2 d' \<noteq> Inl DecoderFuel"
      if "decode env n t = Inr (k, s1)" "decode env n s1 = Inr (v, s2)" for k s1 v s2 d'
      using Suc.IH(3) [of s2] 3 len decode_progress(1) [OF that(1)] decode_progress(1) [OF that(2)]
      by simp
    show ?case using d i r by (auto simp: p and_then_eq_Inl)
  next
    case 4
    have "decodeListItemsIntoList env n s1 BList_create \<noteq> Inl DecoderFuel"
      if "readExpectedChar s CHR ''l'' = Inr s1" for s1
      using Suc.IH(5) [of s1] 4 readExpectedChar_InrD [OF that] by simp
    then show ?case by (auto simp: and_then_eq_Inl)
  next
    case 5
    obtain p t where p: "peek s = (p, t)" by (cases "peek s")
    then have len: "buf t = buf s" using peek_buf [of s] by simp
    have d: "decode env n t \<noteq> Inl DecoderFuel" using Suc.IH(1) [of t] 5 len by simp
    have r: "decodeListItemsIntoList env n s1 xs' \<noteq> Inl DecoderFuel"
      if "decode env n t = Inr (x, s1)" for x s1 xs'
      using Suc.IH(5) [of s1] 5 len decode_progress(1) [OF that] by simp
    show ?case using d r by (auto simp: p and_then_eq_Inl)
  }
qed simp_all

text \<open>More fuel never changes a result.\<close>

lemma decode_fuel_le:
  shows "n \<le> m \<Longrightarrow> fuel_le DecoderFuel (decode env n s) (decode env m s)"
    and "n \<le> m \<Longrightarrow> fuel_le DecoderFuel (decodeDictionary env n s) (decodeDictionary env m s)"
    and "n \<le> m \<Longrightarrow> fuel_le DecoderFuel (decodeDictionaryItemsIntoDictionary env n s d)
      (decodeDictionaryItemsIntoDictionary env m s d)"
    and "n \<le> m \<Longrightarrow> fuel_le DecoderFuel (decodeList env n s) (decodeList env m s)"
    and "n \<le> m \<Longrightarrow> fuel_le DecoderFuel (decodeListItemsIntoList env n s xs) (decodeListItemsIntoList env m s xs)"
proof (induction n arbitrary: s d xs m)
  case (Suc n)
  {
    case 1
    then obtain k where "m = Suc k" "n \<le> k" by (cases m) auto
    then show ?case by (simp only: decode.simps) (intro fuel_le_intros Suc.IH)
  next
    case 2
    then obtain k where "m = Suc k" "n \<le> k" by (cases m) auto
    then show ?case by (simp only: decodeDictionary.simps) (intro fuel_le_intros Suc.IH)
  next
    case 3
    then obtain k where "m = Suc k" "n \<le> k" by (cases m) auto
    then show ?case
      by (simp only: decodeDictionaryItemsIntoDictionary.simps) (intro fuel_le_intros Suc.IH)
  next
    case 4
    then obtain k where "m = Suc k" "n \<le> k" by (cases m) auto
    then show ?case by (simp only: decodeList.simps) (intro fuel_le_intros Suc.IH)
  next
    case 5
    then obtain k where "m = Suc k" "n \<le> k" by (cases m) auto
    then show ?case by (simp only: decodeListItemsIntoList.simps) (intro fuel_le_intros Suc.IH)
  }
qed simp_all

lemma decode_fuel_mono:
  "decode env n s = r \<Longrightarrow> r \<noteq> Inl DecoderFuel \<Longrightarrow> n \<le> m \<Longrightarrow> decode env m s = r"
  using decode_fuel_le(1) [of n m env s] by (auto simp: fuel_le_def)

end
