(* ===== verification/BEncoder.thy ===== *)
theory BEncoder
  imports BItems
begin

text \<open>
  The encoder of the bencoding library: a visitor that appends to its member \<open>encodedData\<close>.
  \<open>enc_accept\<close> is the call of \<open>accept\<close> through a pointer, which dereferences it. The
  specification \<open>bencode\<close> gives the text of an item as a function of the item alone.
\<close>

record encoder =
  encodedData :: string

definition Encoder_create :: encoder where
  "Encoder_create = \<lparr>encodedData = []\<rparr>"

definition enc_emit :: "string \<Rightarrow> encoder \<Rightarrow> encoder" where
  "enc_emit s e = e\<lparr>encodedData := encodedData e @ s\<rparr>"

definition enc_visit_integer :: "int64 \<Rightarrow> encoder \<Rightarrow> encoder" where
  "enc_visit_integer i e = enc_emit (''i'' @ int_dec (sint i) @ ''e'') e"

definition enc_visit_string :: "string \<Rightarrow> encoder \<Rightarrow> encoder" where
  "enc_visit_string s e = enc_emit (nat_dec (length s) @ '':'' @ s) e"

fun enc_visit :: "bitem \<Rightarrow> encoder \<Rightarrow> encoder res"
  and enc_accept :: "item_ptr \<Rightarrow> encoder \<Rightarrow> encoder res"
  and enc_visit_list :: "blist \<Rightarrow> encoder \<Rightarrow> encoder res"
  and enc_visit_dictionary :: "bdict \<Rightarrow> encoder \<Rightarrow> encoder res" where
  "enc_visit (BInteger i) e = Inr (enc_visit_integer i e)"
| "enc_visit (BString s) e = Inr (enc_visit_string s e)"
| "enc_visit (BList xs) e =
     and_then (enc_visit_list xs (enc_emit ''l'' e)) (\<lambda>e. Inr (enc_emit ''e'' e))"
| "enc_visit (BDictionary d) e =
     and_then (enc_visit_dictionary d (enc_emit ''d'' e)) (\<lambda>e. Inr (enc_emit ''e'' e))"
| "enc_accept None e = Inl NullDeref"
| "enc_accept (Some x) e = enc_visit x e"
| "enc_visit_list [] e = Inr e"
| "enc_visit_list (p # ps) e = and_then (enc_accept p e) (\<lambda>e. enc_visit_list ps e)"
| "enc_visit_dictionary [] e = Inr e"
| "enc_visit_dictionary ((k, p) # d) e =
     and_then (enc_accept p (enc_visit_string k e)) (\<lambda>e. enc_visit_dictionary d e)"

text \<open>\<open>Encoder::encode\<close> returns the accumulated text and leaves the encoder as it is.\<close>

definition Encoder_encode :: "item_ptr \<Rightarrow> encoder \<Rightarrow> (string \<times> encoder) res" where
  "Encoder_encode data e = and_then (enc_accept data e) (\<lambda>e'. Inr (encodedData e', e'))"

definition encode :: "item_ptr \<Rightarrow> string res" where
  "encode data = and_then (Encoder_encode data Encoder_create) (\<lambda>(s, e). Inr s)"

subsection \<open>Specification\<close>

definition benc_int :: "int64 \<Rightarrow> string" where
  "benc_int i = ''i'' @ int_dec (sint i) @ ''e''"

definition benc_str :: "string \<Rightarrow> string" where
  "benc_str s = nat_dec (length s) @ '':'' @ s"

fun bencode :: "bitem \<Rightarrow> string" where
  "bencode (BInteger i) = benc_int i"
| "bencode (BString s) = benc_str s"
| "bencode (BList xs) =
     ''l'' @ concat (map (\<lambda>p. case p of None \<Rightarrow> [] | Some y \<Rightarrow> bencode y) xs) @ ''e''"
| "bencode (BDictionary d) =
     ''d'' @ concat (map (\<lambda>e. benc_str (fst e) @
       (case snd e of None \<Rightarrow> [] | Some y \<Rightarrow> bencode y)) d) @ ''e''"

fun null_free :: "bitem \<Rightarrow> bool" where
  "null_free (BInteger _) = True"
| "null_free (BString _) = True"
| "null_free (BList xs) = list_all (\<lambda>p. case p of None \<Rightarrow> False | Some y \<Rightarrow> null_free y) xs"
| "null_free (BDictionary d) =
     list_all (\<lambda>e. case snd e of None \<Rightarrow> False | Some y \<Rightarrow> null_free y) d"

lemma wf_null_free: "wf_bitem x \<Longrightarrow> null_free x"
proof (induction x rule: bitem_induct)
  case (BList xs)
  then show ?case by (auto simp: list_all_iff split: option.splits)
next
  case (BDictionary d)
  then show ?case by (fastforce simp: list_all_iff split: option.splits)
qed simp_all

lemma enc_emit_simps [simp]:
  "encodedData (enc_emit s e) = encodedData e @ s"
  "enc_emit t (enc_emit s e) = enc_emit (s @ t) e"
  "enc_emit [] e = e"
  by (simp_all add: enc_emit_def)

lemma enc_visit_leaf [simp]:
  "enc_visit_integer i e = enc_emit (benc_int i) e"
  "enc_visit_string s e = enc_emit (benc_str s) e"
  by (simp_all add: enc_visit_integer_def enc_visit_string_def benc_int_def benc_str_def)

lemma enc_visit_list_run:
  assumes "\<And>y e. Some y \<in> set xs \<Longrightarrow> enc_visit y e =
      (if null_free y then Inr (enc_emit (bencode y) e) else Inl NullDeref)"
  shows "enc_visit_list xs e =
    (if null_free (BList xs)
     then Inr (enc_emit (concat (map (\<lambda>p. case p of None \<Rightarrow> [] | Some y \<Rightarrow> bencode y) xs)) e)
     else Inl NullDeref)"
  using assms
proof (induction xs arbitrary: e)
  case (Cons p xs)
  then show ?case by (cases p) auto
qed simp

lemma enc_visit_dictionary_run:
  assumes "\<And>k y e. (k, Some y) \<in> set d \<Longrightarrow> enc_visit y e =
      (if null_free y then Inr (enc_emit (bencode y) e) else Inl NullDeref)"
  shows "enc_visit_dictionary d e =
    (if null_free (BDictionary d)
     then Inr (enc_emit (concat (map (\<lambda>e. benc_str (fst e) @
            (case snd e of None \<Rightarrow> [] | Some y \<Rightarrow> bencode y)) d)) e)
     else Inl NullDeref)"
  using assms
proof (induction d arbitrary: e)
  case (Cons a d)
  obtain k p where a: "a = (k, p)" by (cases a)
  show ?case
  proof (cases p)
    case None
    then show ?thesis by (simp add: a)
  next
    case (Some y)
    with Cons.prems [of k y] have y: "enc_visit y e' =
        (if null_free y then Inr (enc_emit (bencode y) e') else Inl NullDeref)" for e'
      by (simp add: a)
    have "(k', Some y') \<in> set d \<Longrightarrow> enc_visit y' e' =
        (if null_free y' then Inr (enc_emit (bencode y') e') else Inl NullDeref)" for k' y' e'
      using Cons.prems [of k' y'] by simp
    from Cons.IH [OF this] show ?thesis by (simp add: a Some y)
  qed
qed simp

text \<open>
  The visitor implements the specification: on an item without null pointers it appends the
  item's text, on any other it dereferences a null pointer.
\<close>

lemma enc_visit_run:
  "enc_visit x e = (if null_free x then Inr (enc_emit (bencode x) e) else Inl NullDeref)"
proof (induction x arbitrary: e rule: bitem_induct)
  case (BList xs)
  from enc_visit_list_run [OF BList] show ?case by (simp del: null_free.simps)
next
  case (BDictionary d)
  from enc_visit_dictionary_run [OF BDictionary] show ?case by (simp del: null_free.simps)
qed simp_all

lemma encode_run: "encode (Some x) = (if null_free x then Inr (bencode x) else Inl NullDeref)"
  by (simp add: encode_def Encoder_encode_def Encoder_create_def enc_visit_run)

end
