(* ===== verification/BCodec.thy ===== *)
theory BCodec
  imports BDecoder BEncoder
begin

text \<open>
  Encoder and decoder of the bencoding library together: decoding what was encoded, what the
  decoder can return, what it does on truncated input, and the resulting prefix codec.
\<close>

subsection \<open>Decoding what was encoded\<close>

lemma nat_dec_Cons: obtains c cs where "nat_dec n = c # cs" "is_digit c" "\<forall>c \<in> set cs. is_digit c"
proof (cases "nat_dec n")
  case (Cons c cs)
  moreover have "\<forall>x \<in> set (c # cs). is_digit x"
    using nat_dec_digits [of _ n] by (simp add: Cons)
  ultimately show ?thesis using that by simp
qed simp

lemma integer_digits_nat_dec: "integer_digits (nat_dec n)"
proof (cases "n = 0")
  case True
  then show ?thesis
    by (simp add: integer_digits_def nat_dec.simps digit_char_def char_of_eq_iff)
next
  case False
  then show ?thesis
    using nat_dec_hd_zero [of n] by (auto simp: integer_digits_def list_all_iff dest: nat_dec_digits)
qed

lemma match_integer_int_dec: "match_integer (''i'' @ int_dec i @ ''e'') = Some (int_dec i)"
proof -
  have "integer_digits (nat_dec k)" for k by (rule integer_digits_nat_dec)
  moreover have "hd (nat_dec k) \<noteq> CHR ''-''" "hd (nat_dec k) \<noteq> CHR ''+''" for k
    using nat_dec_not_special [of "hd (nat_dec k)" k] by simp_all
  ultimately show ?thesis
    by (simp add: match_integer_def int_dec_def butlast_append)
qed

lemma int_dec_no_e: "CHR ''e'' \<notin> set (int_dec i)"
  using nat_dec_not_special by (auto simp: int_dec_def)

lemma decodeInteger_benc:
  "decodeInteger env (istringstream (benc_int i @ rest)) = Inr (BInteger i, istringstream rest)"
proof -
  have "readUntil (istringstream (benc_int i @ rest)) [] CHR ''e'' =
      (True, benc_int i, istringstream rest)"
    using readUntil_found [of "CHR ''e''" "''i'' @ int_dec (sint i)" rest "[]"] int_dec_no_e
    by (simp add: benc_int_def)
  moreover have "match_integer (benc_int i) = Some (int_dec (sint i))"
    unfolding benc_int_def by (rule match_integer_int_dec)
  moreover have "strToNum_int64 (int_dec (sint i)) v = (True, i)" for v
    using strToNum_int64_int_dec [of "sint i" v] sint_ge [of i] sint_lt [of i] by simp
  ultimately show ?thesis
    by (simp add: decodeInteger_def readEncodedInteger_def decodeEncodedInteger_def)
qed

lemma decodeString_benc:
  assumes "length s \<le> max_alloc env" and "max_alloc env < 2 ^ 64"
  shows "decodeString env (istringstream (benc_str s @ rest)) = Inr (BString s, istringstream rest)"
proof -
  have "CHR '':'' \<notin> set (nat_dec (length s))"
    using nat_dec_not_special by blast
  then have "readUpTo (istringstream (benc_str s @ rest)) [] CHR '':'' =
      (True, nat_dec (length s), istringstream (CHR '':'' # s @ rest))"
    using readUpTo_found [of "CHR '':''" "nat_dec (length s)" "s @ rest" "[]"]
    by (simp add: benc_str_def)
  moreover have "strToNum_size (nat_dec (length s)) 0 = (True, of_nat (length s))"
    using assms by (intro strToNum_size_nat_dec) simp
  moreover have "unat (of_nat (length s) :: int64) = length s"
    using assms by (intro unat64_of_nat) simp
  ultimately show ?thesis
    using assms(1)
    by (simp add: decodeString_def readStringLength_def readExpectedChar_def
        readStringOfGivenLength_def)
qed

lemma benc_str_hd: obtains c cs where "benc_str s = c # cs" and "is_digit c"
  by (rule nat_dec_Cons [of "length s"]) (auto simp: benc_str_def)

lemma bencode_hd:
  obtains c cs where "bencode x = c # cs" and "c \<noteq> CHR ''e''"
proof (cases x)
  case (BString s)
  then show ?thesis
    using benc_str_hd [of s] digit_not_special that by (metis bencode.simps(2))
qed (use that in \<open>auto simp: benc_int_def\<close>)

lemma decode_key:
  assumes "length k \<le> max_alloc env" and "max_alloc env < 2 ^ 64" and "0 < n"
  shows "decode env n (istringstream (benc_str k @ rest)) = Inr (BString k, istringstream rest)"
proof -
  obtain m where n: "n = Suc m" using assms(3) by (cases n) auto
  obtain c cs where c: "benc_str k = c # cs" "is_digit c" by (rule benc_str_hd)
  with digit_not_special [OF c(2)] decodeString_benc [OF assms(1,2), of rest] show ?thesis
    by (simp add: n)
qed

lemma decodeListItems_bencode:
  assumes "\<And>y n rest. Some y \<in> set xs \<Longrightarrow> 3 * length (bencode y) + 1 \<le> n \<Longrightarrow>
      decode env n (istringstream (bencode y @ rest)) = Inr (y, istringstream rest)"
    and "None \<notin> set xs"
    and "3 * length (concat (map (\<lambda>p. case p of None \<Rightarrow> [] | Some y \<Rightarrow> bencode y) xs)) + 2 \<le> n"
  shows "decodeListItemsIntoList env n
      (istringstream (concat (map (\<lambda>p. case p of None \<Rightarrow> [] | Some y \<Rightarrow> bencode y) xs) @ CHR ''e'' # rest)) acc =
    Inr (acc @ xs, istringstream (CHR ''e'' # rest))"
  using assms
proof (induction xs arbitrary: n acc)
  case Nil
  then obtain m where "n = Suc m" by (cases n) auto
  then show ?case by simp
next
  case (Cons p xs)
  then obtain y where p: "p = Some y" by (cases p) auto
  obtain m where n: "n = Suc m" using Cons.prems(3) by (cases n) auto
  obtain c cs where c: "bencode y = c # cs" "c \<noteq> CHR ''e''" by (rule bencode_hd)
  let ?r = "concat (map (\<lambda>p. case p of None \<Rightarrow> [] | Some y \<Rightarrow> bencode y) xs) @ CHR ''e'' # rest"
  have d: "decode env m (istringstream (bencode y @ ?r)) = Inr (y, istringstream ?r)"
    using Cons.prems(3) by (intro Cons.prems(1)) (auto simp: p n)
  have i: "decodeListItemsIntoList env m (istringstream ?r) (acc @ [Some y]) =
      Inr ((acc @ [Some y]) @ xs, istringstream (CHR ''e'' # rest))"
    using Cons.prems c by (intro Cons.IH) (auto simp: p n)
  from d i c(2) show ?case by (simp add: p n c(1))
qed

lemma decodeDictItems_bencode:
  assumes "\<And>k y n rest. (k, Some y) \<in> set d \<Longrightarrow> 3 * length (bencode y) + 1 \<le> n \<Longrightarrow>
      decode env n (istringstream (bencode y @ rest)) = Inr (y, istringstream rest)"
    and "None \<notin> snd ` set d" and "\<forall>k \<in> fst ` set d. length k \<le> max_alloc env"
    and "max_alloc env < 2 ^ 64"
    and "3 * length (concat (map (\<lambda>e. benc_str (fst e) @
       (case snd e of None \<Rightarrow> [] | Some y \<Rightarrow> bencode y)) d)) + 2 \<le> n"
  shows "decodeDictionaryItemsIntoDictionary env n
      (istringstream (concat (map (\<lambda>e. benc_str (fst e) @
       (case snd e of None \<Rightarrow> [] | Some y \<Rightarrow> bencode y)) d) @ CHR ''e'' # rest)) acc =
    Inr (bdict.puts d acc, istringstream (CHR ''e'' # rest))"
  using assms
proof (induction d arbitrary: n acc)
  case Nil
  then obtain m where "n = Suc m" by (cases n) auto
  then show ?case by simp
next
  case (Cons a d)
  then obtain k y where a: "a = (k, Some y)" by (cases a; cases "snd a") auto
  obtain m where n: "n = Suc m" using Cons.prems(5) by (cases n) auto
  obtain c cs where c: "benc_str k = c # cs" "is_digit c" by (rule benc_str_hd)
  let ?r = "concat (map (\<lambda>e. benc_str (fst e) @
       (case snd e of None \<Rightarrow> [] | Some y \<Rightarrow> bencode y)) d) @ CHR ''e'' # rest"
  have k: "decode env m (istringstream (benc_str k @ bencode y @ ?r)) =
      Inr (BString k, istringstream (bencode y @ ?r))"
    using Cons.prems(3,4,5) c(1) by (intro decode_key) (auto simp: a n)
  have v: "decode env m (istringstream (bencode y @ ?r)) = Inr (y, istringstream ?r)"
    using Cons.prems(5) by (intro Cons.prems(1)) (auto simp: a n)
  have i: "decodeDictionaryItemsIntoDictionary env m (istringstream ?r) (dict_put k (Some y) acc) =
      Inr (bdict.puts d (dict_put k (Some y) acc), istringstream (CHR ''e'' # rest))"
    using Cons.prems c(1) by (intro Cons.IH) (auto simp: a n)
  from k v i digit_not_special [OF c(2)] show ?case
    by (simp add: a n c(1) key_as_BString_def as_BString_def)
qed

lemma decode_bencode:
  assumes "wf_bitem x" and "strings_within (max_alloc env) x" and "max_alloc env < 2 ^ 64"
    and "3 * length (bencode x) + 1 \<le> n"
  shows "decode env n (istringstream (bencode x @ rest)) = Inr (x, istringstream rest)"
  using assms
proof (induction x arbitrary: n rest rule: bitem_induct)
  case (BInteger i)
  then obtain m where n: "n = Suc m" by (cases n) auto
  from decodeInteger_benc [of env i rest] show ?case by (simp add: n benc_int_def)
next
  case (BString s)
  then show ?case using decode_key [of s env n rest] by simp
next
  case (BList xs)
  then obtain m where n: "n = Suc (Suc m)" by (cases n; cases "n - 1") auto
  have "decodeListItemsIntoList env m
      (istringstream (concat (map (\<lambda>p. case p of None \<Rightarrow> [] | Some y \<Rightarrow> bencode y) xs) @ CHR ''e'' # rest)) [] =
    Inr ([] @ xs, istringstream (CHR ''e'' # rest))"
    using BList by (intro decodeListItems_bencode) (auto simp: n list_all_iff split: option.splits)
  then show ?case by (simp add: n readExpectedChar_def BList_create_def)
next
  case (BDictionary d)
  then obtain m where n: "n = Suc (Suc m)" by (cases n; cases "n - 1") auto
  have "decodeDictionaryItemsIntoDictionary env m
      (istringstream (concat (map (\<lambda>e. benc_str (fst e) @
       (case snd e of None \<Rightarrow> [] | Some y \<Rightarrow> bencode y)) d) @ CHR ''e'' # rest)) [] =
    Inr (bdict.puts d [], istringstream (CHR ''e'' # rest))"
    using BDictionary by (intro decodeDictItems_bencode) (fastforce simp: n list_all_iff split: option.splits)+
  with BDictionary.prems(1) show ?case
    by (simp add: n readExpectedChar_def BDictionary_create_def dict_puts_sorted)
qed

subsection \<open>What the decoder returns\<close>

text \<open>Every decoded item is well-formed, and its strings could be allocated.\<close>

definition decoded_ok :: "cpp_env \<Rightarrow> bitem \<Rightarrow> bool" where
  "decoded_ok env x \<longleftrightarrow> wf_bitem x \<and> strings_within (max_alloc env) x"

lemma decodeInteger_ok: "decodeInteger env s = Inr (x, s') \<Longrightarrow> decoded_ok env x"
  by (auto simp: decodeInteger_def decodeEncodedInteger_def decoded_ok_def elim!: and_then_InrE
      split: option.splits)

lemma decodeString_ok: "decodeString env s = Inr (x, s') \<Longrightarrow> decoded_ok env x"
  by (auto simp: decodeString_def readStringOfGivenLength_def decoded_ok_def elim!: and_then_InrE
      split: prod.splits if_splits)

lemma key_as_BString_Inr: "key_as_BString x = Inr k \<longleftrightarrow> x = BString k"
  by (auto simp: key_as_BString_def as_BString_def split: option.splits bitem.splits)

lemma decoded_ok_BList_snoc:
  "decoded_ok env (BList (xs @ [Some x])) \<longleftrightarrow> decoded_ok env (BList xs) \<and> decoded_ok env x"
  by (auto simp: decoded_ok_def)

lemma dict_put_list_all:
  "list_all P d \<Longrightarrow> P (k, v) \<Longrightarrow> (\<And>k' v'. P (k', v') \<Longrightarrow> k = k' \<Longrightarrow> P (k', v)) \<Longrightarrow>
     list_all P (dict_put k v d)"
  by (induction k v d rule: dict_put.induct) (auto simp: not_less)

lemma decoded_ok_dict_put:
  assumes "decoded_ok env (BDictionary d)" and "decoded_ok env x" and "length k \<le> max_alloc env"
  shows "decoded_ok env (BDictionary (dict_put k (Some x) d))"
  using assms by (auto simp: decoded_ok_def dict_put_sorted intro!: dict_put_list_all)

lemma decode_ok:
  shows "decode env n s = Inr (x, s') \<Longrightarrow> decoded_ok env x"
    and "decodeDictionary env n s = Inr (x, s') \<Longrightarrow> decoded_ok env x"
    and "decodeDictionaryItemsIntoDictionary env n s d = Inr (d', s') \<Longrightarrow>
      decoded_ok env (BDictionary d) \<Longrightarrow> decoded_ok env (BDictionary d')"
    and "decodeList env n s = Inr (x, s') \<Longrightarrow> decoded_ok env x"
    and "decodeListItemsIntoList env n s xs = Inr (xs', s') \<Longrightarrow>
      decoded_ok env (BList xs) \<Longrightarrow> decoded_ok env (BList xs')"
proof (induction n arbitrary: s x s' d d' xs xs')
  case (Suc n)
  {
    case 1
    then show ?case using Suc.IH(2,4)
      by (auto split: prod.splits option.splits if_splits dest: decodeInteger_ok decodeString_ok)
  next
    case 2
    moreover have "decoded_ok env (BDictionary BDictionary_create)"
      by (simp add: decoded_ok_def BDictionary_create_def dict_sorted_def)
    ultimately show ?case using Suc.IH(3) by (auto elim!: and_then_InrE)
  next
    case 3
    obtain p t where p: "peek s = (p, t)" by (cases "peek s")
    show ?case
    proof (cases "failbit s \<or> p = Some CHR ''e''")
      case True
      with 3 p show ?thesis by (auto split: if_splits)
    next
      case False
      with 3(1) p obtain key s1 k v s2 where *: "decode env n t = Inr (key, s1)"
        "key_as_BString key = Inr k" "decode env n s1 = Inr (v, s2)"
        "decodeDictionaryItemsIntoDictionary env n s2 (dict_put k (Some v) d) = Inr (d', s')"
        by (auto elim!: and_then_InrE)
      have "decoded_ok env (BString k)"
        using Suc.IH(1) [OF *(1)] *(2) by (simp add: key_as_BString_Inr)
      then have "decoded_ok env (BDictionary (dict_put k (Some v) d))"
        using 3(2) Suc.IH(1) [OF *(3)] by (intro decoded_ok_dict_put) (auto simp: decoded_ok_def)
      with Suc.IH(3) [OF *(4)] show ?thesis by simp
    qed
  next
    case 4
    moreover have "decoded_ok env (BList BList_create)"
      by (simp add: decoded_ok_def BList_create_def)
    ultimately show ?case using Suc.IH(5) by (auto elim!: and_then_InrE)
  next
    case 5
    obtain p t where p: "peek s = (p, t)" by (cases "peek s")
    show ?case
    proof (cases "failbit s \<or> p = Some CHR ''e''")
      case True
      with 5 p show ?thesis by (auto split: if_splits)
    next
      case False
      with 5(1) p obtain x s1 where *: "decode env n t = Inr (x, s1)"
        "decodeListItemsIntoList env n s1 (xs @ [Some x]) = Inr (xs', s')"
        by (auto elim!: and_then_InrE)
      from Suc.IH(1) [OF *(1)] 5(2) have "decoded_ok env (BList (xs @ [Some x]))"
        by (simp add: decoded_ok_BList_snoc)
      with Suc.IH(5) [OF *(2)] show ?thesis by simp
    qed
  }
qed simp_all

lemma decode_string_ok: "decode_string env s = Inr x \<Longrightarrow> wf_bitem x \<and> strings_within (max_alloc env) x"
  using decode_ok(1) by (auto simp: decode_string_def decode_stream_def decoded_ok_def
      simp del: decode.simps elim!: and_then_InrE)

subsection \<open>More input behind the item\<close>

text \<open>
  A decoder that succeeds stops where the item ends: whatever follows in the stream is
  neither read nor does it change the outcome (the value of an integer out of range apart,
  which is the content of an uninitialised variable).
\<close>

definition behind :: "string \<Rightarrow> istream \<Rightarrow> istream" where
  "behind q s = s\<lparr>buf := buf s @ q\<rparr>"

lemma behind_simps [simp]:
  "buf (behind q s) = buf s @ q" "good (behind q s) = good s"
  "failbit (behind q s) = failbit s" "eofbit (behind q s) = eofbit s"
  by (simp_all add: behind_def good_def)

lemma behind_istringstream [simp]: "behind q (istringstream s) = istringstream (s @ q)"
  by (simp add: behind_def)

lemma good_istringstreamE: assumes "good s" obtains cs where "s = istringstream cs"
  using good_istringstream [OF assms] by metis

lemma peek_behind: "peek s = (Some c, t) \<Longrightarrow> peek (behind q s) = (Some c, behind q t)"
  by (auto simp: peek_def behind_def good_def split: if_splits list.splits)

lemma readExpectedChar_behind:
  "readExpectedChar s c = Inr t \<Longrightarrow> readExpectedChar (behind q s) c = Inr (behind q t)"
  by (auto simp: readExpectedChar_def get_char_def behind_def good_def split: prod.splits if_splits list.splits)

lemma decodeInteger_behind:
  assumes "decodeInteger env s = Inr (x, t)" and "good s"
  shows "good t \<and> as_BString x = None \<and>
    (\<exists>y. decodeInteger env (behind q s) = Inr (y, behind q t) \<and> as_BString y = None)"
proof -
  obtain cs where s: "s = istringstream cs" using assms(2) by (rule good_istringstreamE)
  have e: "CHR ''e'' \<in> set cs"
  proof (rule ccontr)
    assume "CHR ''e'' \<notin> set cs"
    with assms(1) readUntil_missing [of "CHR ''e''" cs "[]"] show False
      by (simp add: s decodeInteger_def readEncodedInteger_def)
  qed
  then obtain ys zs where cs: "cs = ys @ CHR ''e'' # zs" "CHR ''e'' \<notin> set ys"
    using split_list_first by metis
  from assms(1) readUntil_found [OF cs(2), of zs "[]"] readUntil_found [OF cs(2), of "zs @ q" "[]"]
  show ?thesis
    by (auto simp: s cs(1) decodeInteger_def readEncodedInteger_def decodeEncodedInteger_def as_BString_def
        elim!: and_then_InrE split: option.splits)
qed

lemma decodeString_behind:
  assumes "decodeString env s = Inr (x, t)" and "good s"
  shows "good t \<and> decodeString env (behind q s) = Inr (x, behind q t)"
proof -
  obtain cs where s: "s = istringstream cs" using assms(2) by (rule good_istringstreamE)
  have e: "CHR '':'' \<in> set cs"
  proof (rule ccontr)
    assume "CHR '':'' \<notin> set cs"
    with assms(1) readUpTo_missing [of "CHR '':''" cs "[]"] show False
      by (simp add: s decodeString_def readStringLength_def)
  qed
  then obtain ys zs where cs: "cs = ys @ CHR '':'' # zs" "CHR '':'' \<notin> set ys"
    using split_list_first by metis
  from assms(1) readUpTo_found [OF cs(2), of zs "[]"] readUpTo_found [OF cs(2), of "zs @ q" "[]"]
  show ?thesis
    by (auto simp: s cs(1) decodeString_def readStringLength_def readExpectedChar_def
        readStringOfGivenLength_def read_n_def elim!: and_then_InrE split: prod.splits if_splits)
qed

lemma decode_good: "decode env n s = Inr r \<Longrightarrow> good s"
  by (cases n) (auto split: prod.splits option.splits dest: peek_SomeD)

lemma decode_behind:
  shows "decode env n s = Inr (x, t) \<Longrightarrow> good s \<Longrightarrow>
      good t \<and> (\<exists>y. decode env n (behind q s) = Inr (y, behind q t) \<and> as_BString y = as_BString x)"
    and "decodeDictionary env n s = Inr (x, t) \<Longrightarrow> good s \<Longrightarrow>
      good t \<and> as_BString x = None \<and>
      (\<exists>y. decodeDictionary env n (behind q s) = Inr (y, behind q t) \<and> as_BString y = None)"
    and "decodeDictionaryItemsIntoDictionary env n s d = Inr (d', t) \<Longrightarrow> good s \<Longrightarrow>
      good t \<and>
      (\<forall>e. \<exists>e'. decodeDictionaryItemsIntoDictionary env n (behind q s) e = Inr (e', behind q t))"
    and "decodeList env n s = Inr (x, t) \<Longrightarrow> good s \<Longrightarrow>
      good t \<and> as_BString x = None \<and>
      (\<exists>y. decodeList env n (behind q s) = Inr (y, behind q t) \<and> as_BString y = None)"
    and "decodeListItemsIntoList env n s xs = Inr (xs', t) \<Longrightarrow> good s \<Longrightarrow>
      good t \<and> (\<forall>ys. \<exists>ys'. decodeListItemsIntoList env n (behind q s) ys = Inr (ys', behind q t))"
proof (induction n arbitrary: s x t d d' xs xs')
  case (Suc n)
  {
    case 1
    then obtain c where c: "peek s = (Some c, s)"
      by (auto split: prod.splits option.splits dest: peek_SomeD)
    then have c': "peek (behind q s) = (Some c, behind q s)" by (rule peek_behind)
    from 1 c Suc.IH(2) [of s x t] Suc.IH(4) [of s x t] decodeInteger_behind [of env s x t q]
      decodeString_behind [of env s x t q]
    show ?case by (auto simp: c' split: if_splits)
  next
    case 2
    then obtain s1 d s2 where r: "readExpectedChar s CHR ''d'' = Inr s1"
      "decodeDictionaryItemsIntoDictionary env n s1 BDictionary_create = Inr (d, s2)"
      "readExpectedChar s2 CHR ''e'' = Inr t" "x = BDictionary d"
      by (auto elim!: and_then_InrE)
    from Suc.IH(3) [OF r(2)] readExpectedChar_InrD [OF r(1)] obtain e' where
      "decodeDictionaryItemsIntoDictionary env n (behind q s1) BDictionary_create = Inr (e', behind q s2)"
      by blast
    with readExpectedChar_behind [OF r(1), of q] readExpectedChar_behind [OF r(3), of q]
      readExpectedChar_InrD [OF r(3)] r(4)
    show ?case by (simp add: as_BString_def)
  next
    case 3
    obtain p s0 where p: "peek s = (p, s0)" by (cases "peek s")
    show ?case
    proof (cases "p = Some CHR ''e''")
      case True
      with 3 p peek_SomeD [of s "CHR ''e''" s0] peek_behind [of s "CHR ''e''" s0 q]
      show ?thesis by (auto simp: good_def)
    next
      case False
      with 3 p obtain key s1 k v s2 where *: "decode env n s0 = Inr (key, s1)"
        "key_as_BString key = Inr k" "decode env n s1 = Inr (v, s2)"
        "decodeDictionaryItemsIntoDictionary env n s2 (dict_put k (Some v) d) = Inr (d', t)"
        by (auto simp: good_def elim!: and_then_InrE)
      have "good s0" by (rule decode_good [OF *(1)])
      with p 3(2) obtain c where c: "p = Some c" "s0 = s"
        by (auto simp: peek_def good_def split: list.splits)
      with p have c': "peek (behind q s) = (Some c, behind q s)" by (simp add: peek_behind)
      from Suc.IH(1) [OF *(1) \<open>good s0\<close>] obtain key' where
        1: "good s1" "decode env n (behind q s) = Inr (key', behind q s1)" "as_BString key' = as_BString key"
        by (auto simp: c)
      then have key': "key_as_BString key' = Inr k"
        using *(2) by (simp add: key_as_BString_def)
      from Suc.IH(1) [OF *(3) 1(1)] obtain v' where
        2: "good s2" "decode env n (behind q s1) = Inr (v', behind q s2)" by auto
      from Suc.IH(3) [OF *(4) 2(1)] 3(2) False show ?thesis
        by (simp add: good_def c c' 1(2) key' 2(2))
    qed
  next
    case 4
    then obtain s1 xs s2 where r: "readExpectedChar s CHR ''l'' = Inr s1"
      "decodeListItemsIntoList env n s1 BList_create = Inr (xs, s2)"
      "readExpectedChar s2 CHR ''e'' = Inr t" "x = BList xs"
      by (auto elim!: and_then_InrE)
    from Suc.IH(5) [OF r(2)] readExpectedChar_InrD [OF r(1)] obtain e' where
      "decodeListItemsIntoList env n (behind q s1) BList_create = Inr (e', behind q s2)"
      by blast
    with readExpectedChar_behind [OF r(1), of q] readExpectedChar_behind [OF r(3), of q]
      readExpectedChar_InrD [OF r(3)] r(4)
    show ?case by (simp add: as_BString_def)
  next
    case 5
    obtain p s0 where p: "peek s = (p, s0)" by (cases "peek s")
    show ?case
    proof (cases "p = Some CHR ''e''")
      case True
      with 5 p peek_SomeD [of s "CHR ''e''" s0] peek_behind [of s "CHR ''e''" s0 q]
      show ?thesis by (auto simp: good_def)
    next
      case False
      with 5 p obtain x s1 where *: "decode env n s0 = Inr (x, s1)"
        "decodeListItemsIntoList env n s1 (xs @ [Some x]) = Inr (xs', t)"
        by (auto simp: good_def elim!: and_then_InrE)
      have "good s0" by (rule decode_good [OF *(1)])
      with p 5(2) obtain c where c: "p = Some c" "s0 = s"
        by (auto simp: peek_def good_def split: list.splits)
      with p have c': "peek (behind q s) = (Some c, behind q s)" by (simp add: peek_behind)
      from Suc.IH(1) [OF *(1) \<open>good s0\<close>] obtain x' where
        1: "good s1" "decode env n (behind q s) = Inr (x', behind q s1)" by (auto simp: c)
      from Suc.IH(5) [OF *(2) 1(1)] 5(2) False show ?thesis
        by (simp add: good_def c c' 1(2))
    qed
  }
qed simp_all

subsection \<open>The codec\<close>

definition decodable :: "cpp_env \<Rightarrow> bitem \<Rightarrow> bool" where
  "decodable env x \<longleftrightarrow> wf_bitem x \<and> strings_within (max_alloc env) x \<and> max_alloc env < 2 ^ 64"

definition read_item :: "cpp_env \<Rightarrow> string \<Rightarrow> decode_exn + bitem \<times> string" where
  "read_item env s =
     and_then (decode_stream env (istringstream s)) (\<lambda>(x, t). Inr (x, buf t))"

lemma decode_stream_fuel:
  "decode env n s = Inr r \<Longrightarrow> n \<le> 3 * length (buf s) + 1 \<Longrightarrow> decode_stream env s = Inr r"
  unfolding decode_stream_def by (rule decode_fuel_mono) simp_all

lemma decode_stream_bencode:
  "decodable env x \<Longrightarrow>
     decode_stream env (istringstream (bencode x @ rest)) = Inr (x, istringstream rest)"
  unfolding decode_stream_def decodable_def by (rule decode_bencode) simp_all

interpretation bcodec: prefix_codec bencode "read_item env" "decodable env" for env
  by unfold_locales (simp add: read_item_def decode_stream_bencode)

lemma validate_simps [simp]:
  "validateInputDoesNotContainUndecodedCharacters (istringstream []) = Inr ()"
  "validateInputDoesNotContainUndecodedCharacters (istringstream (c # cs)) =
     Inl (DecodingError ''input contains undecoded characters'')"
  by (simp_all add: validateInputDoesNotContainUndecodedCharacters_def)

lemma decode_string_bencode:
  "decodable env x \<Longrightarrow> decode_string env (bencode x @ rest) =
     (if rest = [] then Inr x else Inl (DecodingError ''input contains undecoded characters''))"
  by (cases rest) (simp_all add: decode_string_def decode_stream_bencode del: append_Nil2)

lemma decode_stream_no_fuel: "decode_stream env s \<noteq> Inl DecoderFuel"
  unfolding decode_stream_def by (rule decode_fuel_enough(1)) simp

lemma decode_string_no_fuel: "decode_string env s \<noteq> Inl DecoderFuel"
  using decode_stream_no_fuel [of env "istringstream s"]
  by (auto simp: decode_string_def and_then_eq_Inl
      validateInputDoesNotContainUndecodedCharacters_def split: prod.splits if_splits)

subsection \<open>Properties\<close>

text \<open>A process with some memory, for examples.\<close>

definition small_env :: cpp_env where
  "small_env = \<lparr>max_alloc = 1000, garbage = (\<lambda>_. 7)\<rparr>"

definition sample_item :: bitem where
  "sample_item = BDictionary [(''cow'', Some (BString ''moo'')),
     (''spam'', Some (BList [Some (BInteger (-3)), Some (BString [])]))]"

lemma sample_item_ok: "decodable small_env sample_item"
  by (simp add: decodable_def small_env_def sample_item_def dict_sorted_less)

text \<open>C1: encoding a well-formed item (no null pointers, dictionaries in key order) and decoding
  the text gives the item back, for every 64 bit integer, every string the process can hold
  and any nesting.\<close>

theorem decode_encode_roundtrip:
  assumes "wf_bitem x" and "strings_within (max_alloc env) x" and "max_alloc env < 2 ^ 64"
  shows "\<exists>s. encode (Some x) = Inr s \<and> decode_string env s = Inr x"
  using assms decode_string_bencode [of env x "[]"]
  by (auto simp: encode_run wf_null_free decodable_def)

theorem decode_encode_roundtrip_witness:
  "\<exists>s. encode (Some sample_item) = Inr s \<and> decode_string small_env s = Inr sample_item"
  using sample_item_ok by (intro decode_encode_roundtrip) (simp_all add: decodable_def)

text \<open>C14: the decoder is total: on any input it returns an item or throws \<open>DecodingError\<close> or
  the allocation failure of an over-long string, and recursion always ends within three steps
  per input character. An item it returns is well-formed (no null pointers, keys strictly
  increasing), so it can be encoded.\<close>

theorem decode_total_wf:
  "(\<exists>x. decode_string env s = Inr x \<and> wf_bitem x \<and> strings_within (max_alloc env) x) \<or>
   (\<exists>msg. decode_string env s = Inl (DecodingError msg)) \<or> decode_string env s = Inl AllocError"
proof (cases "decode_string env s")
  case (Inl e)
  then show ?thesis using decode_string_no_fuel [of env s] by (cases e) auto
next
  case (Inr x)
  then show ?thesis using decode_string_ok by blast
qed

text \<open>C32: truncation is always detected: every proper prefix of an encoded item makes the
  decoder throw.\<close>

theorem truncated_input_rejected:
  assumes "decodable env x" and "bencode x = p @ q" and "q \<noteq> []"
  shows "\<exists>e. decode_string env p = Inl e \<and> e \<noteq> DecoderFuel"
proof (cases "decode_string env p")
  case (Inl e)
  then show ?thesis using decode_string_no_fuel [of env p] by auto
next
  case (Inr y)
  then obtain t where t: "decode env (3 * length p + 1) (istringstream p) = Inr (y, t)"
    by (auto simp: decode_string_def decode_stream_def elim!: and_then_InrE)
  then have "good t" "\<exists>y'. decode env (3 * length p + 1) (istringstream (p @ q)) = Inr (y', behind q t)"
    using decode_behind(1) [OF t, of q] by auto
  then obtain y' where "decode env (3 * length p + 1) (istringstream (p @ q)) = Inr (y', behind q t)"
    by blast
  then have "decode env (3 * length (p @ q) + 1) (istringstream (p @ q)) = Inr (y', behind q t)"
    by (rule decode_fuel_mono) simp_all
  with decode_stream_bencode [OF assms(1), of "[]"] have "behind q t = istringstream []"
    by (simp add: decode_stream_def assms(2))
  then have "buf (behind q t) = []" by simp
  with assms(3) show ?thesis by simp
qed

text \<open>An item followed by anything is refused by the string decoder, while the stream
  decoder returns the item and leaves what follows unread.\<close>

lemma trailing_input:
  assumes "decodable env x" and "rest \<noteq> []"
  shows "decode_string env (bencode x @ rest) =
      Inl (DecodingError ''input contains undecoded characters'') \<and>
    decode_stream env (istringstream (bencode x @ rest)) = Inr (x, istringstream rest)"
  using assms by (simp add: decode_string_bencode decode_stream_bencode)

theorem truncated_input_rejected_witness:
  "\<exists>e. decode_string small_env ''d3:cow3:moo4:spamli-3e0:'' = Inl e \<and> e \<noteq> DecoderFuel"
proof (rule truncated_input_rejected [OF sample_item_ok])
  show "bencode sample_item = ''d3:cow3:moo4:spamli-3e0:'' @ ''ee''"
    by code_simp
qed simp

text \<open>A decoded item is a fixed point: encoding it and decoding the result gives it back,
  whatever text (unsorted or repeated keys, signed or overflowing integers) it came from.\<close>

lemma decoded_item_stable:
  assumes "decode_string env s = Inr x" and "max_alloc env < 2 ^ 64"
  shows "\<exists>t. encode (Some x) = Inr t \<and> decode_string env t = Inr x"
proof -
  have "decodable env x" using decode_string_ok [OF assms(1)] assms(2) by (simp add: decodable_def)
  then show ?thesis
    using decode_string_bencode [of env x "[]"] by (auto simp: encode_run wf_null_free decodable_def)
qed

text \<open>Encodings are self-delimiting: two sequences of equally many items whose encodings
  agree when written one after the other are the same items, and so is what follows.\<close>

lemma encodings_self_delimiting:
  assumes "\<forall>x \<in> set xs. decodable env x" and "\<forall>y \<in> set ys. decodable env y"
    and "length xs = length ys" and "concat (map bencode xs) @ r = concat (map bencode ys) @ s"
  shows "xs = ys \<and> r = s"
  using assms by (rule bcodec.enc_stream_inj)

text \<open>A dictionary may be written with its keys in any order and with repetitions: the
  decoder returns the dictionary whose keys are strictly increasing and in which each key has
  the value written last for it.\<close>

lemma dictionary_any_order:
  assumes "\<forall>(k, v) \<in> set kvs. length k \<le> max_alloc env \<and> decodable env v" and "max_alloc env < 2 ^ 64"
  shows "\<exists>d. decode_string env
      (''d'' @ concat (map (\<lambda>(k, v). benc_str k @ bencode v) kvs) @ ''e'') = Inr (BDictionary d) \<and>
    dict_sorted d \<and> (\<forall>k. dict_find k d = map_option Some (map_of (rev kvs) k))"
proof -
  let ?d = "map (\<lambda>(k, v). (k, Some v)) kvs"
  let ?body = "concat (map (\<lambda>(k, v). benc_str k @ bencode v) kvs)"
  let ?text = "''d'' @ ?body @ ''e''"
  have body: "?body = concat (map (\<lambda>e. benc_str (fst e) @
       (case snd e of None \<Rightarrow> [] | Some y \<Rightarrow> bencode y)) ?d)"
    by (rule arg_cong [of _ _ concat]) (auto simp: case_prod_beta)
  have run: "decodeDictionaryItemsIntoDictionary env n (istringstream (?body @ CHR ''e'' # [])) [] =
      Inr (bdict.puts ?d [], istringstream (CHR ''e'' # []))" if "3 * length ?body + 2 \<le> n" for n
    unfolding body
    by (rule decodeDictItems_bencode)
      (use assms that body in \<open>auto simp: decodable_def intro!: decode_bencode\<close>)
  have "decode env (Suc (Suc (3 * length ?body + 2))) (istringstream ?text) =
      Inr (BDictionary (bdict.puts ?d []), istringstream [])"
    using run [of "3 * length ?body + 2"]
    by (simp add: readExpectedChar_def BDictionary_create_def)
  then have "decode_stream env (istringstream ?text) =
      Inr (BDictionary (bdict.puts ?d []), istringstream [])"
    by (rule decode_stream_fuel) simp
  then have "decode_string env ?text = Inr (BDictionary (bdict.puts ?d []))"
    by (simp add: decode_string_def)
  moreover have "dict_sorted (bdict.puts ?d [])"
    by (rule bdict.inv_puts) (simp add: dict_sorted_def)
  moreover have "dict_find k (bdict.puts ?d []) = map_option Some (map_of (rev kvs) k)" for k
    using bdict.find_puts [of "[]" k ?d]
    by (simp add: dict_sorted_def rev_map map_of_map split: option.splits)
  ultimately show ?thesis by blast
qed

text \<open>An integer whose text is well-formed but does not fit 64 bits is not rejected: the
  result of the conversion is ignored and the item returned holds whatever the uninitialised
  variable contained.\<close>

lemma integer_overflow_accepted:
  assumes "integer_digits ds" and "2 ^ 63 < dec_value ds"
  shows "decode_string env (''i'' @ ds @ ''e'') = Inr (BInteger (garbage env 0)) \<and>
    decode_string env (''i-'' @ ds @ ''e'') = Inr (BInteger (garbage env 0))"
proof -
  have d: "list_all is_digit ds" "ds \<noteq> []"
    using assms(1) by (auto simp: integer_digits_def is_digit_def)
  then have hd: "hd ds \<noteq> CHR ''-''" "hd ds \<noteq> CHR ''+''" "\<not> is_space (hd ds)"
    and e: "CHR ''e'' \<notin> set ds"
    using digit_not_special [of "hd ds"] digit_not_special [of "CHR ''e''"]
    by (auto simp: list_all_iff)
  have tw: "takeWhile is_digit ds = ds" "dropWhile is_digit ds = []" "dropWhile is_space ds = ds"
    using d hd(3) by (auto simp: list_all_iff takeWhile_eq_all_conv) (cases ds; simp)+
  have pos: "match_integer (''i'' @ ds @ ''e'') = Some ds"
    "match_integer (''i-'' @ ds @ ''e'') = Some (CHR ''-'' # ds)"
    using assms(1) d(2) hd by (simp_all add: match_integer_def butlast_append)
  have num: "strToNum_int64 ds v = (False, v)" "strToNum_int64 (CHR ''-'' # ds) v = (False, v)" for v
    using assms(2) d(2) hd
    by (simp_all add: strToNum_int64_def scan_int_def Let_def is_space_def tw)
  have "readUntil (istringstream (''i'' @ ds @ ''e'')) [] CHR ''e'' = (True, ''i'' @ ds @ ''e'', istringstream [])"
    "readUntil (istringstream (''i-'' @ ds @ ''e'')) [] CHR ''e'' = (True, ''i-'' @ ds @ ''e'', istringstream [])"
    using readUntil_found [of "CHR ''e''" "''i'' @ ds" "[]" "[]"]
      readUntil_found [of "CHR ''e''" "''i-'' @ ds" "[]" "[]"] e by simp_all
  then have "decode env (Suc 0) (istringstream (''i'' @ ds @ ''e'')) =
      Inr (BInteger (garbage env 0), istringstream [])"
    "decode env (Suc 0) (istringstream (''i-'' @ ds @ ''e'')) =
      Inr (BInteger (garbage env 0), istringstream [])"
    using pos num
    by (simp_all add: decodeInteger_def readEncodedInteger_def decodeEncodedInteger_def)
  then have "decode_stream env (istringstream (''i'' @ ds @ ''e'')) =
      Inr (BInteger (garbage env 0), istringstream [])"
    "decode_stream env (istringstream (''i-'' @ ds @ ''e'')) =
      Inr (BInteger (garbage env 0), istringstream [])"
    by - (erule decode_stream_fuel, simp)+
  then show ?thesis by (simp add: decode_string_def)
qed

text \<open>The encoder fails, with a null pointer dereference, exactly on items that contain a
  null pointer; on all others it appends the item's text to what the encoder object has
  accumulated before, so a second \<open>encode\<close> on the same object returns both texts.\<close>

lemma encoder_accumulates:
  "Encoder_encode (Some x) e =
     (if null_free x
      then Inr (encodedData e @ bencode x, e\<lparr>encodedData := encodedData e @ bencode x\<rparr>)
      else Inl NullDeref)"
  by (simp add: Encoder_encode_def enc_visit_run enc_emit_def)

end
