(* ===== verification/BSyntax.thy ===== *)
theory BSyntax
  imports BEncoder
begin

text \<open>
  The concrete syntax of bencoded texts. A syntax tree \<open>syn\<close> keeps what an item forgets: signs and
  digits as they are written, entries of a dictionary in the order and with the repetitions of the
  text. \<open>syn_text\<close> is the text of a tree, \<open>syn_valid\<close> says which trees are bencoded texts, \<open>canonical\<close>
  which of them are in the form that is unique for their data. Both decoders are compared with it:
  the C++ one in \<open>BAccept\<close>, the C one in \<open>BencodeC\<close>.
\<close>

subsection \<open>Syntax trees\<close>

text \<open>\<open>SInt sign digits\<close>, and \<open>SStr len contents\<close> with \<open>len\<close> the digits before the colon.\<close>

datatype syn =
    SInt string string
  | SStr string string
  | SList "syn list"
  | SDict "((string \<times> string) \<times> syn) list"

type_synonym syn_entry = "(string \<times> string) \<times> syn"

lemma syn_induct [case_names SInt SStr SList SDict]:
  assumes "\<And>sg ds. P (SInt sg ds)" and "\<And>ls s. P (SStr ls s)"
    and "\<And>ys. (\<And>y. y \<in> set ys \<Longrightarrow> P y) \<Longrightarrow> P (SList ys)"
    and "\<And>es. (\<And>k y. (k, y) \<in> set es \<Longrightarrow> P y) \<Longrightarrow> P (SDict es)"
  shows "P y"
proof (induction y)
  case (SDict es)
  then show ?case by (intro assms(4)) (force simp: snds.simps)
qed (use assms in auto)

definition key_text :: "string \<times> string \<Rightarrow> string" where
  "key_text k = fst k @ '':'' @ snd k"

fun syn_text :: "syn \<Rightarrow> string" where
  "syn_text (SInt sg ds) = ''i'' @ sg @ ds @ ''e''"
| "syn_text (SStr ls s) = key_text (ls, s)"
| "syn_text (SList ys) = ''l'' @ concat (map syn_text ys) @ ''e''"
| "syn_text (SDict es) = ''d'' @ concat (map (\<lambda>e. key_text (fst e) @ syn_text (snd e)) es) @ ''e''"

abbreviation syns_text :: "syn list \<Rightarrow> string" where
  "syns_text ys \<equiv> concat (map syn_text ys)"

abbreviation entries_text :: "syn_entry list \<Rightarrow> string" where
  "entries_text es \<equiv> concat (map (\<lambda>e. key_text (fst e) @ syn_text (snd e)) es)"

text \<open>Digits without padding.\<close>

definition unpadded :: "string \<Rightarrow> bool" where
  "unpadded ds \<longleftrightarrow> ds \<noteq> [] \<and> list_all is_digit ds \<and> (hd ds = CHR ''0'' \<longrightarrow> ds = ''0'')"

text \<open>A length may have leading zeros; it must be the length, and the process must have the memory.\<close>

definition key_valid :: "nat \<Rightarrow> string \<times> string \<Rightarrow> bool" where
  "key_valid m k \<longleftrightarrow> fst k \<noteq> [] \<and> list_all is_digit (fst k) \<and> dec_value (fst k) = length (snd k) \<and>
     length (snd k) \<le> m \<and> length (snd k) < 2 ^ 64"

fun syn_valid :: "nat \<Rightarrow> syn \<Rightarrow> bool" where
  "syn_valid m (SInt sg ds) = (sg \<in> {[], ''-'', ''+''} \<and> unpadded ds)"
| "syn_valid m (SStr ls s) = key_valid m (ls, s)"
| "syn_valid m (SList ys) = list_all (syn_valid m) ys"
| "syn_valid m (SDict es) = list_all (\<lambda>e. key_valid m (fst e) \<and> syn_valid m (snd e)) es"

lemma syn_valid_mono: "syn_valid m y \<Longrightarrow> m \<le> n \<Longrightarrow> syn_valid n y"
  by (induction y rule: syn_induct) (auto simp: list_all_iff key_valid_def)

definition int_value :: "string \<Rightarrow> string \<Rightarrow> int" where
  "int_value sg ds = (if sg = ''-'' then - int (dec_value ds) else int (dec_value ds))"

subsection \<open>Leaves\<close>

lemma unpaddedD: "unpadded ds \<Longrightarrow> ds \<noteq> [] \<and> list_all is_digit ds"
  by (simp add: unpadded_def)

lemma unpadded_nat_dec: "unpadded (nat_dec n)"
  using nat_dec_hd_zero [of n]
  by (auto simp: unpadded_def list_all_iff nat_dec.simps [of 0] digit_char_def char_of_eq_iff dest: nat_dec_digits)

lemma digits_no_special:
  assumes "list_all is_digit ds"
  shows "CHR ''e'' \<notin> set ds" "CHR '':'' \<notin> set ds"
  using assms digit_not_special by (auto simp: list_all_iff)

lemma hd_digits:
  assumes "list_all is_digit ds" and "ds \<noteq> []"
  shows "is_digit (hd ds)" "hd ds \<noteq> CHR ''-''" "hd ds \<noteq> CHR ''+''" "\<not> is_space (hd ds)"
  using assms digit_not_special [of "hd ds"] by (auto simp: list_all_iff)

lemma key_text_first: "key_valid m k \<Longrightarrow> \<exists>c u. key_text k = c # u \<and> is_digit c"
  by (cases k; cases "fst k") (auto simp: key_valid_def key_text_def)

lemma syn_text_first: "syn_valid m y \<Longrightarrow> \<exists>c u. syn_text y = c # u \<and> c \<noteq> CHR ''e''"
  using key_text_first digit_not_special by (cases y) fastforce+

subsection \<open>A text has one tree\<close>

lemma append_Cons_unique:
  "xs @ z # r = xs' @ z # r' \<Longrightarrow> z \<notin> set xs \<Longrightarrow> z \<notin> set xs' \<Longrightarrow> xs = xs' \<and> r = r'"
  by (auto simp: append_eq_append_conv2 append_eq_Cons_conv Cons_eq_append_conv)

lemma key_text_unique:
  assumes "key_text k @ r = key_text k' @ r'" and "key_valid m k" and "key_valid m k'"
  shows "k = k' \<and> r = r'"
proof -
  have "fst k = fst k' \<and> snd k @ r = snd k' @ r'"
    by (rule append_Cons_unique [where z = "CHR '':''"])
      (use assms digits_no_special in \<open>auto simp: key_text_def key_valid_def\<close>)
  then show ?thesis using assms(2,3) by (cases k; cases k') (auto simp: key_valid_def)
qed

lemma sign_unique:
  assumes "sg @ ds = sg' @ ds'" and "sg \<in> {[], ''-'', ''+''}" "sg' \<in> {[], ''-'', ''+''}"
    and "unpadded ds" "unpadded ds'"
  shows "sg = sg' \<and> ds = ds'"
  using assms hd_digits [of ds] hd_digits [of ds'] unpaddedD [of ds] unpaddedD [of ds'] by auto

lemma syns_text_unique:
  assumes "\<And>y y' r r'. y \<in> set ys \<Longrightarrow> syn_text y @ r = syn_text y' @ r' \<Longrightarrow> syn_valid m y \<Longrightarrow>
      syn_valid m y' \<Longrightarrow> y = y' \<and> r = r'"
    and "list_all (syn_valid m) ys" and "list_all (syn_valid m) ys'"
    and "syns_text ys @ CHR ''e'' # r = syns_text ys' @ CHR ''e'' # r'"
  shows "ys = ys' \<and> r = r'"
  using assms
proof (induction ys arbitrary: ys')
  case Nil
  then show ?case using syn_text_first [of m] by (cases ys') fastforce+
next
  case (Cons y ys)
  show ?case
  proof (cases ys')
    case Nil
    then show ?thesis using Cons.prems(2,4) syn_text_first [of m y] by auto
  next
    case (Cons y' zs)
    have "y = y' \<and> syns_text ys @ CHR ''e'' # r = syns_text zs @ CHR ''e'' # r'"
      using Cons.prems(2-) Cons by (intro Cons.prems(1)) auto
    moreover from this have "ys = zs \<and> r = r'"
      using Cons.prems Cons by (intro Cons.IH) auto
    ultimately show ?thesis by (simp add: Cons)
  qed
qed

lemma entries_text_unique:
  assumes "\<And>k y y' r r'. (k, y) \<in> set es \<Longrightarrow> syn_text y @ r = syn_text y' @ r' \<Longrightarrow> syn_valid m y \<Longrightarrow>
      syn_valid m y' \<Longrightarrow> y = y' \<and> r = r'"
    and "list_all (\<lambda>e. key_valid m (fst e) \<and> syn_valid m (snd e)) es"
    and "list_all (\<lambda>e. key_valid m (fst e) \<and> syn_valid m (snd e)) es'"
    and "entries_text es @ CHR ''e'' # r = entries_text es' @ CHR ''e'' # r'"
  shows "es = es' \<and> r = r'"
  using assms
proof (induction es arbitrary: es')
  case Nil
  then show ?case using key_text_first [of m] digit_not_special by (cases es') fastforce+
next
  case (Cons e es)
  obtain k y where e: "e = (k, y)" by (cases e)
  show ?case
  proof (cases es')
    case Nil
    then show ?thesis using Cons.prems(2,4) key_text_first [of m k] digit_not_special by (auto simp: e)
  next
    case (Cons e' fs)
    obtain k' y' where e': "e' = (k', y')" by (cases e')
    have k: "k = k' \<and> syn_text y @ entries_text es @ CHR ''e'' # r = syn_text y' @ entries_text fs @ CHR ''e'' # r'"
      using Cons.prems(2-) Cons by (intro key_text_unique [where m = m]) (auto simp: e e')
    then have "y = y' \<and> entries_text es @ CHR ''e'' # r = entries_text fs @ CHR ''e'' # r'"
      using Cons.prems(2-) Cons by (intro Cons.prems(1) [of k]) (auto simp: e e')
    moreover from this have "es = fs \<and> r = r'"
      using Cons.prems(2-) Cons by (intro Cons.IH [OF Cons.prems(1)]) (auto simp: e e')
    ultimately show ?thesis using k by (simp add: Cons e e')
  qed
qed

lemma syn_text_unique:
  "syn_text y @ r = syn_text y' @ r' \<Longrightarrow> syn_valid m y \<Longrightarrow> syn_valid m y' \<Longrightarrow> y = y' \<and> r = r'"
proof (induction y arbitrary: y' r r' rule: syn_induct)
  case (SInt sg ds)
  then obtain sg' ds' where y': "y' = SInt sg' ds'"
    using key_text_first digit_not_special by (cases y') fastforce+
  have "sg @ ds = sg' @ ds' \<and> r = r'"
    by (rule append_Cons_unique [where z = "CHR ''e''"])
      (use SInt y' digits_no_special unpaddedD in auto)
  then show ?case using SInt.prems(2,3) y' sign_unique [of sg ds sg' ds'] by auto
next
  case (SStr ls s)
  then obtain ls' s' where y': "y' = SStr ls' s'"
    using key_text_first [of m "(ls, s)"] digit_not_special by (cases y') fastforce+
  with SStr key_text_unique [of "(ls, s)" r "(ls', s')" r' m] show ?case by simp
next
  case (SList ys)
  then obtain ys' where y': "y' = SList ys'"
    using key_text_first digit_not_special by (cases y') fastforce+
  have "ys = ys' \<and> r = r'"
    by (rule syns_text_unique [OF SList.IH]) (use SList.prems y' in auto)
  then show ?case by (simp add: y')
next
  case (SDict es)
  then obtain es' where y': "y' = SDict es'"
    using key_text_first digit_not_special by (cases y') fastforce+
  have "es = es' \<and> r = r'"
    by (rule entries_text_unique [OF SDict.IH]) (use SDict.prems y' in auto)
  then show ?case by (simp add: y')
qed


subsection \<open>Canonical texts\<close>

text \<open>What BitTorrent requires of a text, so that equal data have equal hashes.\<close>

definition canonical_int :: "string \<Rightarrow> string \<Rightarrow> bool" where
  "canonical_int sg ds \<longleftrightarrow> sg \<noteq> ''+'' \<and> (sg = ''-'' \<longrightarrow> ds \<noteq> ''0'') \<and>
     - (2 ^ 63) \<le> int_value sg ds \<and> int_value sg ds < 2 ^ 63"

fun canonical :: "syn \<Rightarrow> bool" where
  "canonical (SInt sg ds) = canonical_int sg ds"
| "canonical (SStr ls s) = unpadded ls"
| "canonical (SList ys) = list_all canonical ys"
| "canonical (SDict es) =
     (sorted_wrt (<) (map (\<lambda>e. snd (fst e)) es) \<and>
      list_all (\<lambda>e. unpadded (fst (fst e)) \<and> canonical (snd e)) es)"

text \<open>The canonical tree of an item.\<close>

definition int_syn :: "int \<Rightarrow> string \<times> string" where
  "int_syn i = (if i < 0 then (''-'', nat_dec (nat (- i))) else ([], nat_dec (nat i)))"

fun syn_of :: "bitem \<Rightarrow> syn" where
  "syn_of (BInteger i) = SInt (fst (int_syn (sint i))) (snd (int_syn (sint i)))"
| "syn_of (BString s) = SStr (nat_dec (length s)) s"
| "syn_of (BList xs) = SList (map (\<lambda>p. case p of None \<Rightarrow> SList [] | Some y \<Rightarrow> syn_of y) xs)"
| "syn_of (BDictionary d) = SDict (map (\<lambda>e. ((nat_dec (length (fst e)), fst e),
     case snd e of None \<Rightarrow> SList [] | Some y \<Rightarrow> syn_of y)) d)"

text \<open>Digits without leading zeros are the ones that are printed.\<close>

lemma dec_value_Cons_digits: "dec_value (c # cs) = digit_value c * 10 ^ length cs + dec_value cs"
  by (induction cs rule: rev_induct) (simp_all add: dec_value_def algebra_simps)

lemma nat_dec_dec_value: "unpadded ds \<Longrightarrow> nat_dec (dec_value ds) = ds"
proof (induction ds rule: rev_induct)
  case (snoc d ds)
  have d: "is_digit d" using unpaddedD [OF snoc.prems] by simp
  then have dv: "digit_value d < 10" "digit_char (digit_value d) = d"
    by (auto simp: is_digit_def digit_value_def digit_char_def)
  show ?case
  proof (cases "ds = []")
    case True
    with dv show ?thesis by (subst nat_dec.simps) (simp add: dec_value_def)
  next
    case False
    have ds: "unpadded ds"
      using snoc.prems False by (auto simp: unpadded_def Cons_eq_append_conv)
    have "hd ds \<noteq> CHR ''0''"
      using snoc.prems False by (auto simp: unpadded_def Cons_eq_append_conv)
    then have "dec_value ds \<noteq> 0" using snoc.IH [OF ds] nat_dec_hd_zero [of "dec_value ds"] by auto
    then show ?thesis
      using dv snoc.IH [OF ds] by (subst nat_dec.simps) (simp add: dec_value_snoc)
  qed
qed (simp add: unpadded_def)

lemma nat_dec_zero: "nat_dec n = ''0'' \<longleftrightarrow> n = 0"
proof -
  have "nat_dec 0 = ''0''" by (simp add: nat_dec.simps digit_char_def char_of_eq_iff)
  then show ?thesis using nat_dec_inj [of n 0] by simp
qed

lemma int_syn_canonical:
  assumes "- (2 ^ 63) \<le> i" and "i < 2 ^ 63"
  shows "canonical_int (fst (int_syn i)) (snd (int_syn i)) \<and> unpadded (snd (int_syn i)) \<and>
    fst (int_syn i) \<in> {[], ''-'', ''+''} \<and> fst (int_syn i) @ snd (int_syn i) = int_dec i"
  using assms
  by (auto simp: int_syn_def canonical_int_def int_value_def int_dec_def unpadded_nat_dec nat_dec_zero)

lemma int_syn_value:
  assumes "canonical_int sg ds" and "sg \<in> {[], ''-'', ''+''}" and "unpadded ds"
  shows "int_syn (int_value sg ds) = (sg, ds)"
proof -
  have "ds = ''0''" if "dec_value ds = 0" "sg = ''-''"
    using nat_dec_dec_value [OF assms(3)] nat_dec_zero [of 0] that by simp
  then show ?thesis
    using assms nat_dec_dec_value [OF assms(3)]
    by (auto simp: int_syn_def int_value_def canonical_int_def)
qed


lemma key_text_nat_dec: "key_text (nat_dec (length s), s) = benc_str s"
  by (simp add: key_text_def benc_str_def)

lemma key_valid_nat_dec: "length s \<le> m \<Longrightarrow> m < 2 ^ 64 \<Longrightarrow> key_valid m (nat_dec (length s), s)"
  by (auto simp: key_valid_def list_all_iff intro: nat_dec_digits)

lemma syn_of_canonical:
  assumes "wf_bitem x" and "strings_within m x" and "m < 2 ^ 64"
  shows "syn_text (syn_of x) = bencode x \<and> syn_valid m (syn_of x) \<and> canonical (syn_of x)"
  using assms
proof (induction x rule: bitem_induct)
  case (BInteger i)
  have "- (2 ^ 63) \<le> sint i" "sint i < 2 ^ 63" using sint_greater_eq [of i] sint_lt [of i] by simp_all
  from int_syn_canonical [OF this] show ?case
    by (auto simp: benc_int_def simp flip: append_assoc)
next
  case (BString s)
  then show ?case
    using key_valid_nat_dec [of s m] by (simp add: key_text_nat_dec unpadded_nat_dec)
next
  case (BList xs)
  have "syn_text y = (case p of None \<Rightarrow> [] | Some z \<Rightarrow> bencode z) \<and> syn_valid m y \<and> canonical y"
    if "p \<in> set xs" "y = (case p of None \<Rightarrow> SList [] | Some y \<Rightarrow> syn_of y)" for p y
  proof -
    have "case p of None \<Rightarrow> False | Some z \<Rightarrow> wf_bitem z \<and> strings_within m z"
      using BList.prems that(1) by (cases p) (auto simp: list_all_iff)
    with BList.IH that \<open>m < 2 ^ 64\<close> show ?thesis by (cases p) simp_all
  qed
  then show ?case by (auto simp: list_all_iff intro!: arg_cong [where f = concat])
next
  case (BDictionary d)
  have "key_text k = benc_str (fst e) \<and> key_valid m k \<and> unpadded (fst k) \<and>
      syn_text y = (case snd e of None \<Rightarrow> [] | Some z \<Rightarrow> bencode z) \<and> syn_valid m y \<and> canonical y"
    if "e \<in> set d" "k = (nat_dec (length (fst e)), fst e)"
      "y = (case snd e of None \<Rightarrow> SList [] | Some y \<Rightarrow> syn_of y)" for e k y
  proof -
    have "length (fst e) \<le> m \<and> (case snd e of None \<Rightarrow> False | Some z \<Rightarrow> wf_bitem z \<and> strings_within m z)"
      using BDictionary.prems that(1) by (cases "snd e") (auto simp: list_all_iff)
    with BDictionary.IH [of "fst e"] that \<open>m < 2 ^ 64\<close> key_valid_nat_dec [of "fst e" m] show ?thesis
      by (cases e; cases "snd e") (simp_all add: key_text_nat_dec unpadded_nat_dec)
  qed
  moreover have "sorted_wrt (<) (map fst d)" using BDictionary.prems(1) by (simp add: dict_sorted_less)
  ultimately show ?case
    by (auto simp: list_all_iff comp_def intro!: arg_cong [where f = concat])
qed

text \<open>Keys of a canonical tree carry their printed length.\<close>

lemma canonical_key: "key_valid m k \<Longrightarrow> unpadded (fst k) \<Longrightarrow> (nat_dec (length (snd k)), snd k) = k"
  using nat_dec_dec_value [of "fst k"] by (cases k) (simp add: key_valid_def)

end
