(* ===== verification/BAccept.thy ===== *)
theory BAccept
  imports BCodec BSyntax
begin

text \<open>
  The C++ decoder against the concrete syntax: it accepts exactly the valid texts and gives them the
  value \<open>syn_value\<close>, and re-encoding gives back exactly the canonical ones.
\<close>

subsection \<open>Values\<close>

text \<open>
  \<open>syn_value env r y\<close> is the item for \<open>y\<close> when \<open>r\<close> bytes follow it: of an integer out of range only
  the contents of the uninitialised variable remain. Of repeated keys the last one counts.
\<close>

fun syn_value :: "cpp_env \<Rightarrow> nat \<Rightarrow> syn \<Rightarrow> bitem"
  and list_values :: "cpp_env \<Rightarrow> nat \<Rightarrow> syn list \<Rightarrow> blist"
  and entry_values :: "cpp_env \<Rightarrow> nat \<Rightarrow> syn_entry list \<Rightarrow> bdict" where
  "syn_value env r (SInt sg ds) =
     (let v = int_value sg ds in
      BInteger (if - (2 ^ 63) \<le> v \<and> v < 2 ^ 63 then word_of_int v else garbage env r))"
| "syn_value env r (SStr ls s) = BString s"
| "syn_value env r (SList ys) = BList (list_values env (r + 1) ys)"
| "syn_value env r (SDict es) = BDictionary (bdict.puts (entry_values env (r + 1) es) BDictionary_create)"
| "list_values env r [] = []"
| "list_values env r (y # ys) =
     Some (syn_value env (r + length (syns_text ys)) y) # list_values env r ys"
| "entry_values env r [] = []"
| "entry_values env r ((k, y) # es) =
     (snd k, Some (syn_value env (r + length (entries_text es)) y)) # entry_values env r es"

subsection \<open>Leaves\<close>

lemma integer_digits_unpadded: "integer_digits ds \<longleftrightarrow> unpadded ds"
  by (auto simp: integer_digits_def unpadded_def is_digit_def)

lemma scan_int_digits:
  assumes "list_all is_digit ds" and "ds \<noteq> []" and "sg \<in> {[], ''-'', ''+''}"
  shows "scan_int (sg @ ds) = (sg = ''-'', ds, [])"
proof -
  have "takeWhile is_digit ds = ds" "dropWhile is_digit ds = []"
    using assms(1) by (auto simp: list_all_iff takeWhile_eq_all_conv dropWhile_eq_Nil_conv)
  moreover have "dropWhile is_space (sg @ ds) = sg @ ds"
    using assms hd_digits [OF assms(1,2)] by (cases ds) (auto simp: is_space_def)
  ultimately show ?thesis
    using assms hd_digits [OF assms(1,2)] by (auto simp: scan_int_def Let_def)
qed

lemma match_integer_iff:
  "match_integer t = Some g \<longleftrightarrow>
     (\<exists>sg ds. t = ''i'' @ sg @ ds @ ''e'' \<and> g = sg @ ds \<and> sg \<in> {[], ''-'', ''+''} \<and> unpadded ds)"
proof
  assume m: "match_integer t = Some g"
  then have t: "2 \<le> length t" "hd t = CHR ''i''" "last t = CHR ''e''" "g = butlast (tl t)"
    by (auto simp: match_integer_def integer_digits_unpadded Let_def split: if_splits)
  then have eq: "t = ''i'' @ g @ ''e''"
  proof (cases t)
    case (Cons c u)
    then show ?thesis using t append_butlast_last_id [of u] by (cases "u = []") simp_all
  qed (use t in simp)
  have "unpadded (if g \<noteq> [] \<and> (hd g = CHR ''-'' \<or> hd g = CHR ''+'') then tl g else g)"
    using m t by (auto simp: match_integer_def integer_digits_unpadded Let_def split: if_splits)
  then show "\<exists>sg ds. t = ''i'' @ sg @ ds @ ''e'' \<and> g = sg @ ds \<and> sg \<in> {[], ''-'', ''+''} \<and> unpadded ds"
    using eq
    by (intro exI [of _ "if g \<noteq> [] \<and> (hd g = CHR ''-'' \<or> hd g = CHR ''+'') then [hd g] else []"]
        exI [of _ "if g \<noteq> [] \<and> (hd g = CHR ''-'' \<or> hd g = CHR ''+'') then tl g else g"]) auto
next
  assume "\<exists>sg ds. t = ''i'' @ sg @ ds @ ''e'' \<and> g = sg @ ds \<and> sg \<in> {[], ''-'', ''+''} \<and> unpadded ds"
  then obtain sg ds where *: "t = ''i'' @ sg @ ds @ ''e''" "g = sg @ ds" "sg \<in> {[], ''-'', ''+''}"
    "unpadded ds" by blast
  from unpaddedD [OF *(4)] hd_digits [of ds] * show "match_integer t = Some g"
    by (auto simp: match_integer_def integer_digits_unpadded Let_def butlast_append)
qed

lemma strToNum_int64_syn:
  assumes "sg \<in> {[], ''-'', ''+''}" and "unpadded ds"
  shows "BInteger (snd (strToNum_int64 (sg @ ds) (garbage env r))) = syn_value env r (SInt sg ds)"
  using scan_int_digits [OF _ _ assms(1), of ds] unpaddedD [OF assms(2)]
  by (simp add: strToNum_int64_def int_value_def Let_def)

text \<open>Every stream the decoder works on is \<open>istringstream s\<close> for what is left of its input.\<close>

lemma readUntil_Some:
  assumes "readUntil (istringstream s) acc z = (True, t, s')"
  shows "\<exists>xs r. s = xs @ z # r \<and> z \<notin> set xs \<and> t = acc @ xs @ [z] \<and> s' = istringstream r"
proof (cases "z \<in> set s")
  case True
  then obtain xs r where "s = xs @ z # r" "z \<notin> set xs" using split_list_first by metis
  with assms readUntil_found [of z xs r acc] show ?thesis by auto
qed (use assms readUntil_missing [of z s acc] in simp)

lemma decodeInteger_iff:
  "decodeInteger env (istringstream s) = Inr (x, t) \<longleftrightarrow>
     (\<exists>sg ds r. s = syn_text (SInt sg ds) @ r \<and> t = istringstream r \<and> syn_valid m (SInt sg ds) \<and>
        x = syn_value env (length r) (SInt sg ds))" (is "?L \<longleftrightarrow> ?R")
proof
  assume ?L
  then obtain e where e: "readUntil (istringstream s) [] CHR ''e'' = (True, e, t)"
    and d: "decodeEncodedInteger (garbage env (length (buf t))) e = Inr x"
    by (auto simp: decodeInteger_def readEncodedInteger_def elim!: and_then_InrE
        split: prod.splits if_splits)
  from readUntil_Some [OF e] obtain xs r where *: "s = xs @ CHR ''e'' # r" "e = xs @ ''e''"
    "t = istringstream r" by auto
  from d obtain g where g: "match_integer e = Some g"
    and x: "x = BInteger (snd (strToNum_int64 g (garbage env (length r))))"
    by (auto simp: decodeEncodedInteger_def *(3) split: option.splits)
  from g obtain sg ds where **: "e = ''i'' @ sg @ ds @ ''e''" "g = sg @ ds" "sg \<in> {[], ''-'', ''+''}"
    "unpadded ds" by (auto simp: match_integer_iff)
  show ?R
    using * ** x strToNum_int64_syn [OF **(3,4), of env "length r"]
    by (intro exI [of _ sg] exI [of _ ds] exI [of _ r]) (auto simp del: syn_value.simps)
next
  assume ?R
  then obtain sg ds r where *: "s = syn_text (SInt sg ds) @ r" "t = istringstream r"
    "sg \<in> {[], ''-'', ''+''}" "unpadded ds" "x = syn_value env (length r) (SInt sg ds)"
    by (auto simp del: syn_value.simps)
  have "CHR ''e'' \<notin> set (''i'' @ sg @ ds)"
    using *(3) digits_no_special [of ds] unpaddedD [OF *(4)] by auto
  from readUntil_found [OF this, of r "[]"] * have
    "readUntil (istringstream s) [] CHR ''e'' = (True, ''i'' @ sg @ ds @ ''e'', istringstream r)" by simp
  moreover have "match_integer (''i'' @ sg @ ds @ ''e'') = Some (sg @ ds)"
    using * by (subst match_integer_iff) blast
  ultimately show ?L
    using *(2,5) strToNum_int64_syn [OF *(3,4), of env "length r"]
    by (simp add: decodeInteger_def readEncodedInteger_def decodeEncodedInteger_def del: syn_value.simps)
qed


lemma istringstream_inject [simp]: "istringstream s = istringstream t \<longleftrightarrow> s = t"
  by (simp add: istringstream_def)

lemma peek_at_eof [simp]:
  "peek \<lparr>buf = [], eofbit = True, failbit = False\<rparr> = (None, \<lparr>buf = [], eofbit = True, failbit = True\<rparr>)"
  by (simp add: peek_def good_def)

lemma readExpectedChar_iff:
  "readExpectedChar (istringstream s) c = Inr t \<longleftrightarrow> (\<exists>r. s = c # r \<and> t = istringstream r)"
  by (cases s) (auto simp: readExpectedChar_def get_char_def good_def istringstream_def)

lemma strToNum_size_digits:
  assumes "list_all is_digit ls" and "ls \<noteq> []" and "dec_value ls < 2 ^ 64"
  shows "strToNum_size ls v = (True, of_nat (dec_value ls))"
  using scan_int_digits [OF assms(1,2), of "[]"] assms by (simp add: strToNum_size_def)

text \<open>The decoder reads a length only where it has seen a digit.\<close>

lemma strToNum_size_True:
  assumes "strToNum_size ls v = (True, n)" and "ls \<noteq> [] \<Longrightarrow> is_digit (hd ls)"
  shows "list_all is_digit ls \<and> ls \<noteq> [] \<and> dec_value ls < 2 ^ 64 \<and> n = of_nat (dec_value ls)"
proof -
  obtain neg ds rest where sc: "scan_int ls = (neg, ds, rest)" by (cases "scan_int ls")
  with assms(1) have ok: "ds \<noteq> []" "dec_value ds < 2 ^ 64" "rest = []"
    "n = (if neg then - of_nat (dec_value ds) else of_nat (dec_value ds))"
    by (auto simp: strToNum_size_def split: if_splits)
  have "ls \<noteq> []" using sc ok(1) by (auto simp: scan_int_def)
  with assms(2) have hd: "is_digit (hd ls)" by simp
  then have "hd ls \<noteq> CHR ''-''" "hd ls \<noteq> CHR ''+''" "dropWhile is_space ls = ls"
    using digit_not_special [OF hd] \<open>ls \<noteq> []\<close> by (cases ls; simp)+
  with sc have "neg = False" "ds = takeWhile is_digit ls" "rest = dropWhile is_digit ls"
    by (simp_all add: scan_int_def Let_def)
  moreover from this ok(3) have "\<forall>c \<in> set ls. is_digit c" by (metis dropWhile_eq_Nil_conv)
  moreover from this have "takeWhile is_digit ls = ls" by (simp add: takeWhile_eq_all_conv)
  ultimately show ?thesis using ok \<open>ls \<noteq> []\<close> by (simp add: list_all_iff)
qed

lemma readUpTo_True:
  assumes "readUpTo (istringstream s) acc z = (True, t, s')"
  shows "\<exists>xs r. s = xs @ z # r \<and> z \<notin> set xs \<and> t = acc @ xs \<and> s' = istringstream (z # r)"
proof (cases "z \<in> set s")
  case True
  then obtain xs r where "s = xs @ z # r" "z \<notin> set xs" using split_list_first by metis
  with assms readUpTo_found [of z xs r acc] show ?thesis by auto
qed (use assms readUpTo_missing [of z s acc] in simp)

lemma unat_dec_value: "dec_value ls < 2 ^ 64 \<Longrightarrow> unat (of_nat (dec_value ls) :: int64) = dec_value ls"
  by (rule unat64_of_nat) simp

lemma decodeString_iff:
  assumes "s \<noteq> []" and "is_digit (hd s)"
  shows "decodeString env (istringstream s) = Inr (x, t) \<longleftrightarrow>
    (\<exists>ls c r. s = syn_text (SStr ls c) @ r \<and> t = istringstream r \<and> key_valid (max_alloc env) (ls, c) \<and>
       x = BString c)" (is "?L \<longleftrightarrow> ?R")
proof
  assume ?L
  then obtain n s1 s2 c where r: "readStringLength (istringstream s) = Inr (n, s1)"
    "readExpectedChar s1 CHR '':'' = Inr s2" "readStringOfGivenLength env s2 n = Inr (c, t)" "x = BString c"
    by (auto simp: decodeString_def elim!: and_then_InrE)
  from r(1) obtain ls w where ls: "readUpTo (istringstream s) [] CHR '':'' = (True, ls, s1)"
    "strToNum_size ls 0 = (True, w)" "n = unat w"
    by (auto simp: readStringLength_def split: prod.splits if_splits)
  from readUpTo_True [OF ls(1)] obtain u where u: "s = ls @ CHR '':'' # u" "s1 = istringstream (CHR '':'' # u)"
    by auto
  have "is_digit (hd ls)" if "ls \<noteq> []" using assms(2) that by (simp add: u(1))
  from strToNum_size_True [OF ls(2) this] have w: "list_all is_digit ls" "ls \<noteq> []" "dec_value ls < 2 ^ 64"
    "n = dec_value ls" by (simp_all add: ls(3) unat_dec_value)
  have "s2 = istringstream u" using r(2) u(2) by (simp add: readExpectedChar_iff)
  with r(3) have "n \<le> max_alloc env" "length c = n" "u = c @ drop n u" "t = istringstream (drop n u)"
    by (auto simp: readStringOfGivenLength_def read_n_def min_def split: if_splits prod.splits)
  with u(1) w r(4) show ?R
    by (intro exI [of _ ls] exI [of _ c] exI [of _ "drop n u"]) (simp add: key_text_def key_valid_def)
next
  assume ?R
  then obtain ls c r where *: "s = ls @ CHR '':'' # c @ r" "t = istringstream r" "x = BString c"
    and k: "key_valid (max_alloc env) (ls, c)" by (auto simp: key_text_def)
  have ls: "list_all is_digit ls" "ls \<noteq> []" "dec_value ls = length c" "length c \<le> max_alloc env" "length c < 2 ^ 64"
    using k by (simp_all add: key_valid_def)
  from readUpTo_found [OF digits_no_special(2) [OF ls(1)], of "c @ r" "[]"]
    strToNum_size_digits [OF ls(1,2), of 0] unat_dec_value [of ls] ls(3,5)
  have "readStringLength (istringstream s) = Inr (length c, istringstream (CHR '':'' # c @ r))"
    by (simp add: readStringLength_def *(1))
  then show ?L using ls(4) * by (simp add: decodeString_def readExpectedChar_def readStringOfGivenLength_def)
qed


subsection \<open>The decoder accepts exactly the valid texts\<close>

text \<open>Soundness: whatever the decoder returns stands for a valid text it has consumed.\<close>

lemma syn_value_BString: "syn_value env r y = BString k \<Longrightarrow> \<exists>ls. y = SStr ls k"
  by (cases y) (simp_all add: Let_def)

lemma decode_sound:
  shows "decode env n (istringstream s) = Inr (x, t) \<Longrightarrow>
      \<exists>y r. s = syn_text y @ r \<and> t = istringstream r \<and> syn_valid (max_alloc env) y \<and>
        x = syn_value env (length r) y"
    and "decodeDictionary env n (istringstream s) = Inr (x, t) \<Longrightarrow>
      \<exists>es r. s = syn_text (SDict es) @ r \<and> t = istringstream r \<and> syn_valid (max_alloc env) (SDict es) \<and>
        x = syn_value env (length r) (SDict es)"
    and "decodeDictionaryItemsIntoDictionary env n (istringstream s) d = Inr (d', t) \<Longrightarrow>
      \<exists>es r. s = entries_text es @ CHR ''e'' # r \<and> t = istringstream (CHR ''e'' # r) \<and>
        syn_valid (max_alloc env) (SDict es) \<and> d' = bdict.puts (entry_values env (length r + 1) es) d"
    and "decodeList env n (istringstream s) = Inr (x, t) \<Longrightarrow>
      \<exists>ys r. s = syn_text (SList ys) @ r \<and> t = istringstream r \<and> syn_valid (max_alloc env) (SList ys) \<and>
        x = syn_value env (length r) (SList ys)"
    and "decodeListItemsIntoList env n (istringstream s) xs = Inr (xs', t) \<Longrightarrow>
      \<exists>ys r. s = syns_text ys @ CHR ''e'' # r \<and> t = istringstream (CHR ''e'' # r) \<and>
        syn_valid (max_alloc env) (SList ys) \<and> xs' = xs @ list_values env (length r + 1) ys"
proof (induction n arbitrary: s x t d d' xs xs')
  case (Suc n)
  {
    case 1
    then obtain c u where s: "s = c # u" by (cases s) auto
    show ?case
    proof (cases "c = CHR ''d'' \<or> c = CHR ''l''")
      case True
      with 1 have "decodeDictionary env n (istringstream s) = Inr (x, t) \<or>
          decodeList env n (istringstream s) = Inr (x, t)" by (auto simp: s)
      with Suc.IH(2,4) show ?thesis by blast
    next
      case nested: False
      show ?thesis
      proof (cases "c = CHR ''i''")
        case True
        with 1 have "decodeInteger env (istringstream s) = Inr (x, t)" by (simp add: s)
        then show ?thesis unfolding decodeInteger_iff [where m = "max_alloc env"] by blast
      next
        case False
        with 1 nested have "is_digit c" "decodeString env (istringstream s) = Inr (x, t)"
          by (auto simp: s split: if_splits)
        then obtain ls k r where "s = syn_text (SStr ls k) @ r" "t = istringstream r"
          "key_valid (max_alloc env) (ls, k)" "x = BString k"
          by (subst (asm) decodeString_iff) (auto simp: s)
        then show ?thesis by (intro exI [of _ "SStr ls k"]) auto
      qed
    qed
  next
    case 2
    then obtain s1 d s2 where r: "readExpectedChar (istringstream s) CHR ''d'' = Inr s1"
      "decodeDictionaryItemsIntoDictionary env n s1 BDictionary_create = Inr (d, s2)"
      "readExpectedChar s2 CHR ''e'' = Inr t" "x = BDictionary d"
      by (auto elim!: and_then_InrE)
    from r(1) obtain u where u: "s = CHR ''d'' # u" "s1 = istringstream u"
      by (auto simp: readExpectedChar_iff)
    from Suc.IH(3) [OF r(2) [unfolded u(2)]] obtain es q where "u = entries_text es @ CHR ''e'' # q"
      "s2 = istringstream (CHR ''e'' # q)" "syn_valid (max_alloc env) (SDict es)"
      "d = bdict.puts (entry_values env (length q + 1) es) BDictionary_create" by blast
    with r(3,4) u(1) show ?case
      by (intro exI [of _ es] exI [of _ q]) (simp add: readExpectedChar_iff)
  next
    case 3
    then obtain c u where s: "s = c # u" by (cases s; cases n) auto
    show ?case
    proof (cases "c = CHR ''e''")
      case True
      with 3 show ?thesis by (intro exI [of _ "[]"] exI [of _ u]) (auto simp: s)
    next
      case False
      with 3 obtain key s1 k v s2 where r: "decode env n (istringstream s) = Inr (key, s1)"
        "key_as_BString key = Inr k" "decode env n s1 = Inr (v, s2)"
        "decodeDictionaryItemsIntoDictionary env n s2 (dict_put k (Some v) d) = Inr (d', t)"
        by (auto simp: s elim!: and_then_InrE)
      from Suc.IH(1) [OF r(1)] r(2) obtain ls s1' where key: "s = key_text (ls, k) @ s1'"
        "s1 = istringstream s1'" "key_valid (max_alloc env) (ls, k)"
        by (auto simp: key_as_BString_Inr dest: syn_value_BString [OF sym])
      from Suc.IH(1) [OF r(3) [unfolded key(2)]] obtain y s2' where y: "s1' = syn_text y @ s2'"
        "s2 = istringstream s2'" "syn_valid (max_alloc env) y" "v = syn_value env (length s2') y" by auto
      from Suc.IH(3) [OF r(4) [unfolded y(2)]] obtain es r where "s2' = entries_text es @ CHR ''e'' # r"
        "t = istringstream (CHR ''e'' # r)" "syn_valid (max_alloc env) (SDict es)"
        "d' = bdict.puts (entry_values env (length r + 1) es) (dict_put k (Some v) d)" by auto
      with key y show ?thesis
        by (intro exI [of _ "((ls, k), y) # es"] exI [of _ r]) (simp add: add.commute)
    qed
  next
    case 4
    then obtain s1 xs s2 where r: "readExpectedChar (istringstream s) CHR ''l'' = Inr s1"
      "decodeListItemsIntoList env n s1 BList_create = Inr (xs, s2)"
      "readExpectedChar s2 CHR ''e'' = Inr t" "x = BList xs"
      by (auto elim!: and_then_InrE)
    from r(1) obtain u where u: "s = CHR ''l'' # u" "s1 = istringstream u"
      by (auto simp: readExpectedChar_iff)
    from Suc.IH(5) [OF r(2) [unfolded u(2)]] obtain ys q where "u = syns_text ys @ CHR ''e'' # q"
      "s2 = istringstream (CHR ''e'' # q)" "syn_valid (max_alloc env) (SList ys)"
      "xs = BList_create @ list_values env (length q + 1) ys" by blast
    with r(3,4) u(1) show ?case
      by (intro exI [of _ ys] exI [of _ q]) (simp add: readExpectedChar_iff BList_create_def)
  next
    case 5
    then obtain c u where s: "s = c # u" by (cases s; cases n) auto
    show ?case
    proof (cases "c = CHR ''e''")
      case True
      with 5 show ?thesis by (intro exI [of _ "[]"] exI [of _ u]) (auto simp: s)
    next
      case False
      with 5 obtain v s1 where r: "decode env n (istringstream s) = Inr (v, s1)"
        "decodeListItemsIntoList env n s1 (xs @ [Some v]) = Inr (xs', t)"
        by (auto simp: s elim!: and_then_InrE)
      from Suc.IH(1) [OF r(1)] obtain y s1' where y: "s = syn_text y @ s1'" "s1 = istringstream s1'"
        "syn_valid (max_alloc env) y" "v = syn_value env (length s1') y" by auto
      from Suc.IH(5) [OF r(2) [unfolded y(2)]] obtain ys r where "s1' = syns_text ys @ CHR ''e'' # r"
        "t = istringstream (CHR ''e'' # r)" "syn_valid (max_alloc env) (SList ys)"
        "xs' = (xs @ [Some v]) @ list_values env (length r + 1) ys" by auto
      with y show ?thesis
        by (intro exI [of _ "y # ys"] exI [of _ r]) (simp add: add.commute)
    qed
  }
qed simp_all


text \<open>Completeness: every valid text is read, whatever follows it.\<close>

lemma Suc_leE: "Suc k \<le> n \<Longrightarrow> (\<And>m. n = Suc m \<Longrightarrow> k \<le> m \<Longrightarrow> P) \<Longrightarrow> P"
  by (cases n) simp_all

lemma decode_key_complete:
  assumes "key_valid (max_alloc env) k" and "0 < n"
  shows "decode env n (istringstream (key_text k @ r)) = Inr (BString (snd k), istringstream r)"
proof -
  obtain m where n: "n = Suc m" using assms(2) by (cases n) auto
  obtain c u where c: "key_text k = c # u" "is_digit c" using key_text_first [OF assms(1)] by blast
  have "decodeString env (istringstream (key_text k @ r)) = Inr (BString (snd k), istringstream r)"
    by (subst decodeString_iff) (use assms(1) c in \<open>cases k; force\<close>)+
  with c digit_not_special [OF c(2)] show ?thesis by (simp add: n)
qed

lemma list_complete:
  assumes "\<And>y n r. y \<in> set ys \<Longrightarrow> 3 * length (syn_text y) + 1 \<le> n \<Longrightarrow>
      decode env n (istringstream (syn_text y @ r)) = Inr (syn_value env (length r) y, istringstream r)"
    and "list_all (syn_valid (max_alloc env)) ys" and "3 * length (syns_text ys) + 2 \<le> n"
  shows "decodeListItemsIntoList env n (istringstream (syns_text ys @ CHR ''e'' # r)) xs =
    Inr (xs @ list_values env (length r + 1) ys, istringstream (CHR ''e'' # r))"
  using assms
proof (induction ys arbitrary: n xs)
  case Nil
  then show ?case by (cases n) simp_all
next
  case (Cons y ys)
  obtain m where n: "n = Suc m" "3 * length (syns_text (y # ys)) + 1 \<le> m"
    using Cons.prems(3) by (auto elim: Suc_leE)
  obtain c u where c: "syn_text y = c # u" "c \<noteq> CHR ''e''" using syn_text_first Cons.prems(2) by force
  let ?r = "syns_text ys @ CHR ''e'' # r"
  let ?v = "syn_value env (length ?r) y"
  have "decode env m (istringstream (syn_text y @ ?r)) = Inr (?v, istringstream ?r)"
    using n(2) by (intro Cons.prems(1)) auto
  moreover have "decodeListItemsIntoList env m (istringstream ?r) (xs @ [Some ?v]) =
      Inr ((xs @ [Some ?v]) @ list_values env (length r + 1) ys, istringstream (CHR ''e'' # r))"
    using Cons.prems n c by (intro Cons.IH) auto
  ultimately show ?case using c by (simp add: n(1) add.commute)
qed

lemma dict_complete:
  assumes "\<And>k y n r. (k, y) \<in> set es \<Longrightarrow> 3 * length (syn_text y) + 1 \<le> n \<Longrightarrow>
      decode env n (istringstream (syn_text y @ r)) = Inr (syn_value env (length r) y, istringstream r)"
    and "list_all (\<lambda>e. key_valid (max_alloc env) (fst e) \<and> syn_valid (max_alloc env) (snd e)) es"
    and "3 * length (entries_text es) + 2 \<le> n"
  shows "decodeDictionaryItemsIntoDictionary env n (istringstream (entries_text es @ CHR ''e'' # r)) d =
    Inr (bdict.puts (entry_values env (length r + 1) es) d, istringstream (CHR ''e'' # r))"
  using assms
proof (induction es arbitrary: n d)
  case Nil
  then show ?case by (cases n) simp_all
next
  case (Cons e es)
  obtain k y where e: "e = (k, y)" by (cases e)
  obtain m where n: "n = Suc m" "3 * length (entries_text (e # es)) + 1 \<le> m"
    using Cons.prems(3) by (auto elim: Suc_leE)
  have k: "key_valid (max_alloc env) k" using Cons.prems(2) by (simp add: e)
  obtain c u where c: "key_text k = c # u" "is_digit c" using key_text_first [OF k] by blast
  let ?r = "entries_text es @ CHR ''e'' # r"
  let ?v = "syn_value env (length ?r) y"
  have "decode env m (istringstream (key_text k @ syn_text y @ ?r)) =
      Inr (BString (snd k), istringstream (syn_text y @ ?r))"
    using n(2) by (intro decode_key_complete k) simp
  moreover have "decode env m (istringstream (syn_text y @ ?r)) = Inr (?v, istringstream ?r)"
    using n(2) by (intro Cons.prems(1) [of k]) (auto simp: e)
  moreover have "decodeDictionaryItemsIntoDictionary env m (istringstream ?r) (dict_put (snd k) (Some ?v) d) =
      Inr (bdict.puts (entry_values env (length r + 1) es) (dict_put (snd k) (Some ?v) d),
        istringstream (CHR ''e'' # r))"
    by (rule Cons.IH [OF Cons.prems(1)]) (use Cons.prems n c in \<open>auto simp: e\<close>)
  ultimately show ?case
    using c digit_not_special [OF c(2)] by (simp add: n(1) e key_as_BString_def as_BString_def add.commute)
qed

lemma decode_complete:
  assumes "syn_valid (max_alloc env) y" and "3 * length (syn_text y) + 1 \<le> n"
  shows "decode env n (istringstream (syn_text y @ r)) = Inr (syn_value env (length r) y, istringstream r)"
  using assms
proof (induction y arbitrary: n r rule: syn_induct)
  case (SInt sg ds)
  then obtain m where n: "n = Suc m" by (cases n) auto
  have "decodeInteger env (istringstream (syn_text (SInt sg ds) @ r)) =
      Inr (syn_value env (length r) (SInt sg ds), istringstream r)"
    using SInt.prems(1) by (subst decodeInteger_iff [where m = "max_alloc env"]) blast
  then show ?case by (simp add: n)
next
  case (SStr ls s)
  then show ?case using decode_key_complete [of env "(ls, s)" n r] by simp
next
  case (SList ys)
  then obtain m where n: "n = Suc (Suc m)" "3 * length (syns_text ys) + 2 \<le> m"
    by (cases n; cases "n - 1") auto
  have "decodeListItemsIntoList env m (istringstream (syns_text ys @ CHR ''e'' # r)) BList_create =
    Inr (BList_create @ list_values env (length r + 1) ys, istringstream (CHR ''e'' # r))"
    using SList n by (intro list_complete) (auto simp: list_all_iff)
  then show ?case by (simp add: n(1) readExpectedChar_def BList_create_def)
next
  case (SDict es)
  then obtain m where n: "n = Suc (Suc m)" "3 * length (entries_text es) + 2 \<le> m"
    by (cases n; cases "n - 1") auto
  have "decodeDictionaryItemsIntoDictionary env m (istringstream (entries_text es @ CHR ''e'' # r))
      BDictionary_create =
    Inr (bdict.puts (entry_values env (length r + 1) es) BDictionary_create, istringstream (CHR ''e'' # r))"
    using SDict n by (intro dict_complete) (auto simp: list_all_iff)
  then show ?case by (simp add: n(1) readExpectedChar_def)
qed

lemma decode_stream_complete:
  "syn_valid (max_alloc env) y \<Longrightarrow>
     decode_stream env (istringstream (syn_text y @ r)) = Inr (syn_value env (length r) y, istringstream r)"
  unfolding decode_stream_def by (rule decode_complete) simp_all


lemma decode_stream_iff:
  "decode_stream env (istringstream s) = Inr (x, t) \<longleftrightarrow>
     (\<exists>y r. s = syn_text y @ r \<and> t = istringstream r \<and> syn_valid (max_alloc env) y \<and>
        x = syn_value env (length r) y)" (is "?L \<longleftrightarrow> ?R")
proof
  assume ?L
  then show ?R unfolding decode_stream_def by (rule decode_sound(1))
next
  assume ?R
  then show ?L using decode_stream_complete by blast
qed

lemma decode_string_iff:
  "decode_string env s = Inr x \<longleftrightarrow>
     (\<exists>y. s = syn_text y \<and> syn_valid (max_alloc env) y \<and> x = syn_value env 0 y)"
proof
  assume "decode_string env s = Inr x"
  then obtain t where "decode_stream env (istringstream s) = Inr (x, t)"
    and v: "validateInputDoesNotContainUndecodedCharacters t = Inr ()"
    by (auto simp: decode_string_def elim!: and_then_InrE)
  then obtain y r where "s = syn_text y @ r" "t = istringstream r" "syn_valid (max_alloc env) y"
    "x = syn_value env (length r) y" unfolding decode_stream_iff by blast
  moreover have "r = []" using v calculation(2) by (cases r) simp_all
  ultimately show "\<exists>y. s = syn_text y \<and> syn_valid (max_alloc env) y \<and> x = syn_value env 0 y" by auto
next
  assume "\<exists>y. s = syn_text y \<and> syn_valid (max_alloc env) y \<and> x = syn_value env 0 y"
  then obtain y where "s = syn_text y" "syn_valid (max_alloc env) y" "x = syn_value env 0 y" by blast
  with decode_stream_complete [of env y "[]"] show "decode_string env s = Inr x"
    by (simp add: decode_string_def)
qed

subsection \<open>Canonical texts\<close>

text \<open>A canonical tree is the canonical tree of its item.\<close>

lemma sorted_entry_values:
  "sorted_wrt (<) (map (\<lambda>e. snd (fst e)) es) \<Longrightarrow>
     bdict.puts (entry_values env r es) BDictionary_create = entry_values env r es"
proof -
  have "map fst (entry_values env r es) = map (\<lambda>e. snd (fst e)) es"
    by (induction es) auto
  then show "sorted_wrt (<) (map (\<lambda>e. snd (fst e)) es) \<Longrightarrow>
     bdict.puts (entry_values env r es) BDictionary_create = entry_values env r es"
    by (simp add: BDictionary_create_def dict_puts_sorted dict_sorted_less)
qed

lemma syn_of_value: "canonical y \<Longrightarrow> syn_valid m y \<Longrightarrow> syn_of (syn_value env r y) = y"
proof (induction y arbitrary: r rule: syn_induct)
  case (SInt sg ds)
  then have "int_syn (int_value sg ds) = (sg, ds)" by (intro int_syn_value) auto
  moreover have "sint (word_of_int (int_value sg ds) :: int64) = int_value sg ds"
    using SInt.prems(1) by (intro sint64_of_int) (auto simp: canonical_int_def)
  ultimately show ?case using SInt.prems(1) by (simp add: Let_def canonical_int_def)
next
  case (SStr ls s)
  then show ?case using canonical_key [of m "(ls, s)"] by simp
next
  case (SList ys)
  have "map (\<lambda>p. case p of None \<Rightarrow> SList [] | Some y \<Rightarrow> syn_of y) (list_values env r ys) = ys"
    if "\<And>y r. y \<in> set ys \<Longrightarrow> syn_of (syn_value env r y) = y" for r ys
    using that by (induction ys) auto
  then show ?case using SList by (auto simp: list_all_iff)
next
  case (SDict es)
  have "map (\<lambda>e. ((nat_dec (length (fst e)), fst e), case snd e of None \<Rightarrow> SList [] | Some y \<Rightarrow> syn_of y))
      (entry_values env r es) = es"
    if "\<And>k y r. (k, y) \<in> set es \<Longrightarrow> syn_of (syn_value env r y) = y \<and> (nat_dec (length (snd k)), snd k) = k"
    for r es
    using that by (induction es) force+
  then show ?case
    using SDict canonical_key by (fastforce simp: list_all_iff sorted_entry_values)
qed


subsection \<open>Properties\<close>

text \<open>C2: the decoder accepts exactly the valid texts. The stream decoder returns an item and leaves a
  rest exactly when the input is the text of a valid tree followed by that rest and the item is the
  tree's value; the string decoder, exactly when the whole input is the text of a valid tree, which
  is then the only one. So signs, zero padded lengths, keys in any order and repeated keys are
  accepted, padded integers, negative lengths and anything else are not, and every fault of the
  value (an integer out of range) is the one \<open>syn_value\<close> names.\<close>

theorem decoder_accepts_exactly:
  "(decode_stream env (istringstream s) = Inr (x, t)) =
      (\<exists>y r. s = syn_text y @ r \<and> t = istringstream r \<and> syn_valid (max_alloc env) y \<and>
         x = syn_value env (length r) y) \<and>
   (decode_string env s = Inr x) =
      (\<exists>!y. s = syn_text y \<and> syn_valid (max_alloc env) y \<and> x = syn_value env 0 y)"
proof
  show "(decode_string env s = Inr x) =
      (\<exists>!y. s = syn_text y \<and> syn_valid (max_alloc env) y \<and> x = syn_value env 0 y)"
    unfolding decode_string_iff using syn_text_unique [of _ "[]" _ "[]" "max_alloc env"] by auto
qed (rule decode_stream_iff)

text \<open>C12: what the decoder accepts, the encoder writes back in canonical form: encoding a decoded item
  gives a text with the same item, and gives the text it was decoded from exactly when that text is
  canonical (no plus signs, no negative zero, integers in range, lengths without leading zeros, keys
  strictly increasing).\<close>

theorem reencoding_canonical:
  assumes "decode_string env s = Inr x" and "max_alloc env < 2 ^ 64"
  shows "\<exists>t. encode (Some x) = Inr t \<and> decode_string env t = Inr x \<and>
    (t = s \<longleftrightarrow> (\<exists>y. s = syn_text y \<and> syn_valid (max_alloc env) y \<and> canonical y))"
proof -
  obtain t where t: "encode (Some x) = Inr t" "decode_string env t = Inr x"
    using decoded_item_stable [OF assms] by blast
  have x: "wf_bitem x" "strings_within (max_alloc env) x"
    using decode_string_ok [OF assms(1)] by simp_all
  then have tx: "t = bencode x" using t(1) by (simp add: encode_run wf_null_free)
  have "t = s \<longleftrightarrow> (\<exists>y. s = syn_text y \<and> syn_valid (max_alloc env) y \<and> canonical y)"
  proof
    assume "t = s"
    then show "\<exists>y. s = syn_text y \<and> syn_valid (max_alloc env) y \<and> canonical y"
      using syn_of_canonical [OF x assms(2)] tx by metis
  next
    assume "\<exists>y. s = syn_text y \<and> syn_valid (max_alloc env) y \<and> canonical y"
    then obtain y where y: "s = syn_text y" "syn_valid (max_alloc env) y" "canonical y" by blast
    then have "x = syn_value env 0 y" using assms(1) decode_string_iff [of env s "syn_value env 0 y"] by auto
    then show "t = s" using syn_of_value [OF y(3,2)] syn_of_canonical [OF x assms(2)] tx y(1) by simp
  qed
  with t show ?thesis by blast
qed

theorem reencoding_canonical_witness:
  "\<exists>t. encode (Some (BList [Some (BInteger 5)])) = Inr t \<and> t \<noteq> ''li+5ee''"
proof -
  have "decode_string small_env ''li+5ee'' = Inr (BList [Some (BInteger 5)])"
    unfolding decode_string_iff
    by (intro exI [of _ "SList [SInt ''+'' ''5'']"])
      (simp add: unpadded_def is_digit_def int_value_def dec_value_def digit_value_def Let_def)
  from reencoding_canonical [OF this] obtain t where t: "encode (Some (BList [Some (BInteger 5)])) = Inr t"
    "t = ''li+5ee'' \<longleftrightarrow> (\<exists>y. ''li+5ee'' = syn_text y \<and> syn_valid (max_alloc small_env) y \<and> canonical y)"
    by (auto simp: small_env_def)
  have "y = SList [SInt ''+'' ''5'']" if "''li+5ee'' = syn_text y" "syn_valid (max_alloc small_env) y" for y
    using syn_text_unique [of y "[]" "SList [SInt ''+'' ''5'']" "[]" "max_alloc small_env"] that
    by (simp add: unpadded_def is_digit_def)
  moreover have "\<not> canonical (SList [SInt ''+'' ''5''])" by (simp add: canonical_int_def)
  ultimately show ?thesis using t by metis
qed

end
