(* ===== verification/BPretty.thy ===== *)
theory BPretty
  imports BEncoder CppStream
begin

text \<open>
  The pretty printer of the bencoding library: a visitor with three members, the text produced
  so far, the indentation of one level and the indentation of the current line. Containers
  lengthen the current indentation, print their items and cut it back. The specification
  \<open>pretty\<close> gives the text of an item as a function of the item and the two indentations.
\<close>

record printer =
  prettyRepr :: string
  indentLevel :: string
  currentIndent :: string

definition PrettyPrinter_create :: printer where
  "PrettyPrinter_create = \<lparr>prettyRepr = [], indentLevel = ''    '', currentIndent = []\<rparr>"

definition pp_emit :: "string \<Rightarrow> printer \<Rightarrow> printer" where
  "pp_emit s p = p\<lparr>prettyRepr := prettyRepr p @ s\<rparr>"

definition storeCurrentIndent :: "printer \<Rightarrow> printer" where
  "storeCurrentIndent p = p\<lparr>prettyRepr := prettyRepr p @ currentIndent p\<rparr>"

definition increaseIndentLevel :: "printer \<Rightarrow> printer" where
  "increaseIndentLevel p = p\<lparr>currentIndent := currentIndent p @ indentLevel p\<rparr>"

text \<open>\<open>substr\<close> takes at most what there is.\<close>

definition decreaseIndentLevel :: "printer \<Rightarrow> printer" where
  "decreaseIndentLevel p =
     p\<lparr>currentIndent :=
       take (size_t_minus (length (currentIndent p)) (length (indentLevel p))) (currentIndent p)\<rparr>"

definition pp_visit_integer :: "int64 \<Rightarrow> printer \<Rightarrow> printer" where
  "pp_visit_integer i p = pp_emit (int_dec (sint i)) p"

definition pp_visit_string :: "string \<Rightarrow> printer \<Rightarrow> printer" where
  "pp_visit_string s p = pp_emit (''\"'' @ replace_char s CHR ''\"'' (CHR 0x5C # ''\"'') @ ''\"'') p"

fun pp_visit :: "bitem \<Rightarrow> printer \<Rightarrow> printer res"
  and pp_accept :: "item_ptr \<Rightarrow> printer \<Rightarrow> printer res"
  and pp_visit_items :: "bool \<Rightarrow> blist \<Rightarrow> printer \<Rightarrow> printer res"
  and pp_visit_entries :: "bool \<Rightarrow> bdict \<Rightarrow> printer \<Rightarrow> printer res" where
  "pp_visit (BInteger i) p = Inr (pp_visit_integer i p)"
| "pp_visit (BString s) p = Inr (pp_visit_string s p)"
| "pp_visit (BList xs) p =
     and_then (pp_visit_items False xs (increaseIndentLevel (pp_emit ''[\<newline>'' p)))
       (\<lambda>p. let p = (if xs \<noteq> [] then pp_emit ''\<newline>'' p else p);
                p = storeCurrentIndent (decreaseIndentLevel p)
            in Inr (pp_emit '']'' p))"
| "pp_visit (BDictionary d) p =
     and_then (pp_visit_entries False d (increaseIndentLevel (pp_emit ''{\<newline>'' p)))
       (\<lambda>p. let p = (if d \<noteq> [] then pp_emit ''\<newline>'' p else p);
                p = storeCurrentIndent (decreaseIndentLevel p)
            in Inr (pp_emit ''}'' p))"
| "pp_accept None p = Inl NullDeref"
| "pp_accept (Some x) p = pp_visit x p"
| "pp_visit_items putComma [] p = Inr p"
| "pp_visit_items putComma (q # qs) p =
     (let p = (if putComma then pp_emit '',\<newline>'' p else p);
          p = storeCurrentIndent p
      in and_then (pp_accept q p) (\<lambda>p. pp_visit_items True qs p))"
| "pp_visit_entries putComma [] p = Inr p"
| "pp_visit_entries putComma ((k, q) # d) p =
     (let p = (if putComma then pp_emit '',\<newline>'' p else p);
          p = pp_emit '': '' (pp_visit_string k (storeCurrentIndent p))
      in and_then (pp_accept q p) (\<lambda>p. pp_visit_entries True d p))"

definition PrettyPrinter_getPrettyRepr ::
  "item_ptr \<Rightarrow> string \<Rightarrow> printer \<Rightarrow> (string \<times> printer) res" where
  "PrettyPrinter_getPrettyRepr data indent p =
     and_then (pp_accept data (p\<lparr>prettyRepr := [], indentLevel := indent, currentIndent := []\<rparr>))
       (\<lambda>p. Inr (prettyRepr p, p))"

definition getPrettyRepr :: "item_ptr \<Rightarrow> string \<Rightarrow> string res" where
  "getPrettyRepr data indent =
     and_then (PrettyPrinter_getPrettyRepr data indent PrettyPrinter_create) (\<lambda>(s, p). Inr s)"

text \<open>The default argument of both functions.\<close>

definition default_indent :: string where
  "default_indent = ''    ''"

subsection \<open>Specification\<close>

definition pretty_quoted :: "string \<Rightarrow> string" where
  "pretty_quoted s = ''\"'' @ replace_char s CHR ''\"'' (CHR 0x5C # ''\"'') @ ''\"''"

text \<open>Items on lines of their own, separated by a comma and a line break.\<close>

fun comma_lines :: "string list \<Rightarrow> string" where
  "comma_lines [] = []"
| "comma_lines [l] = l @ ''\<newline>''"
| "comma_lines (l # ls) = l @ '',\<newline>'' @ comma_lines ls"

fun pretty :: "string \<Rightarrow> string \<Rightarrow> bitem \<Rightarrow> string" where
  "pretty ind cur (BInteger i) = int_dec (sint i)"
| "pretty ind cur (BString s) = pretty_quoted s"
| "pretty ind cur (BList xs) =
     ''[\<newline>'' @
     comma_lines (map (\<lambda>q. (cur @ ind) @
       (case q of None \<Rightarrow> [] | Some y \<Rightarrow> pretty ind (cur @ ind) y)) xs) @
     cur @ '']''"
| "pretty ind cur (BDictionary d) =
     ''{\<newline>'' @
     comma_lines (map (\<lambda>e. (cur @ ind) @ pretty_quoted (fst e) @ '': '' @
       (case snd e of None \<Rightarrow> [] | Some y \<Rightarrow> pretty ind (cur @ ind) y)) d) @
     cur @ ''}''"

text \<open>What a container has printed after its last item, before the line break.\<close>

definition comma_items :: "bool \<Rightarrow> string list \<Rightarrow> string" where
  "comma_items putComma ls =
     concat (map (\<lambda>(b, l). (if b then '',\<newline>'' else []) @ l) (zip (putComma # replicate (length ls) True) ls))"

lemma comma_items_simps [simp]:
  "comma_items c [] = []"
  "comma_items c (l # ls) = (if c then '',\<newline>'' else []) @ l @ comma_items True ls"
  by (simp_all add: comma_items_def)

lemma comma_items_True: "comma_items True (l # ls) = '',\<newline>'' @ comma_items False (l # ls)"
  by simp

lemma comma_lines_items: "ls \<noteq> [] \<Longrightarrow> comma_lines ls = comma_items False ls @ ''\<newline>''"
  by (induction ls rule: comma_lines.induct) (simp_all del: append_Cons)

subsection \<open>The printer implements the specification\<close>

lemma pp_emit_simps [simp]:
  "prettyRepr (pp_emit s p) = prettyRepr p @ s"
  "indentLevel (pp_emit s p) = indentLevel p"
  "currentIndent (pp_emit s p) = currentIndent p"
  "pp_emit t (pp_emit s p) = pp_emit (s @ t) p"
  "pp_emit [] p = p"
  by (simp_all add: pp_emit_def)

lemma storeCurrentIndent_emit [simp]: "storeCurrentIndent p = pp_emit (currentIndent p) p"
  by (simp add: storeCurrentIndent_def pp_emit_def)

lemma pp_visit_leaf [simp]:
  "pp_visit_integer i p = pp_emit (int_dec (sint i)) p"
  "pp_visit_string s p = pp_emit (pretty_quoted s) p"
  by (simp_all add: pp_visit_integer_def pp_visit_string_def pretty_quoted_def)

lemma increase_simps [simp]:
  "prettyRepr (increaseIndentLevel p) = prettyRepr p"
  "indentLevel (increaseIndentLevel p) = indentLevel p"
  "currentIndent (increaseIndentLevel p) = currentIndent p @ indentLevel p"
  by (simp_all add: increaseIndentLevel_def)

text \<open>Decreasing undoes increasing: the subtraction of the sizes does not wrap.\<close>

lemma decrease_increase [simp]:
  "decreaseIndentLevel (increaseIndentLevel p) = p"
  "decreaseIndentLevel (pp_emit s (increaseIndentLevel (pp_emit t p))) = pp_emit (t @ s) p"
  by (simp_all add: decreaseIndentLevel_def increaseIndentLevel_def pp_emit_def size_t_minus_def)

definition prints :: "bitem \<Rightarrow> bool" where
  "prints x \<longleftrightarrow> (\<forall>p. pp_visit x p =
     (if null_free x then Inr (pp_emit (pretty (indentLevel p) (currentIndent p) x) p)
      else Inl NullDeref))"

lemma prints_iff:
  "prints x \<Longrightarrow> pp_visit x p =
     (if null_free x then Inr (pp_emit (pretty (indentLevel p) (currentIndent p) x) p)
      else Inl NullDeref)"
  by (simp add: prints_def)

lemma pp_visit_items_run:
  assumes "\<And>y. Some y \<in> set xs \<Longrightarrow> prints y"
  shows "pp_visit_items c xs p =
    (if null_free (BList xs)
     then Inr (pp_emit (comma_items c (map (\<lambda>q. currentIndent p @
            (case q of None \<Rightarrow> [] | Some y \<Rightarrow> pretty (indentLevel p) (currentIndent p) y)) xs)) p)
     else Inl NullDeref)"
  using assms
proof (induction xs arbitrary: c p)
  case (Cons q xs)
  then show ?case by (cases q) (auto simp: Let_def prints_iff cong: option.case_cong)
qed simp

lemma pp_visit_entries_run:
  assumes "\<And>k y. (k, Some y) \<in> set d \<Longrightarrow> prints y"
  shows "pp_visit_entries c d p =
    (if null_free (BDictionary d)
     then Inr (pp_emit (comma_items c (map (\<lambda>e. currentIndent p @ pretty_quoted (fst e) @ '': '' @
            (case snd e of None \<Rightarrow> [] | Some y \<Rightarrow> pretty (indentLevel p) (currentIndent p) y)) d)) p)
     else Inl NullDeref)"
  using assms
proof (induction d arbitrary: c p)
  case (Cons a d)
  obtain k q where a: "a = (k, q)" by (cases a)
  have rest: "\<And>k y. (k, Some y) \<in> set d \<Longrightarrow> prints y"
    using Cons.prems by auto
  show ?case
  proof (cases q)
    case None
    then show ?thesis by (simp add: a Let_def)
  next
    case (Some y)
    then have "prints y" using Cons.prems [of k y] by (simp add: a)
    then show ?thesis using Cons.IH [OF rest] by (simp add: a Some Let_def prints_iff cong: option.case_cong)
  qed
qed simp

lemma pp_visit_run: "prints x"
proof (induction x rule: bitem_induct)
  case (BList xs)
  have run: "pp_visit_items c xs p =
    (if null_free (BList xs)
     then Inr (pp_emit (comma_items c (map (\<lambda>q. currentIndent p @
            (case q of None \<Rightarrow> [] | Some y \<Rightarrow> pretty (indentLevel p) (currentIndent p) y)) xs)) p)
     else Inl NullDeref)" for c p
    by (rule pp_visit_items_run) (rule BList)
  show ?case
    by (cases "xs = []")
      (simp_all add: prints_def run Let_def comma_lines_items cong: option.case_cong)
next
  case (BDictionary d)
  have run: "pp_visit_entries c d p =
    (if null_free (BDictionary d)
     then Inr (pp_emit (comma_items c (map (\<lambda>e. currentIndent p @ pretty_quoted (fst e) @ '': '' @
            (case snd e of None \<Rightarrow> [] | Some y \<Rightarrow> pretty (indentLevel p) (currentIndent p) y)) d)) p)
     else Inl NullDeref)" for c p
    by (rule pp_visit_entries_run) (rule BDictionary)
  show ?case
    by (cases "d = []")
      (simp_all add: prints_def run Let_def comma_lines_items cong: option.case_cong)
qed (simp_all add: prints_def)

text \<open>C34: whatever a printer object printed before, \<open>getPrettyRepr\<close> returns the specified text
  of the item and leaves the current indentation as it found it after resetting it; it fails,
  with a null pointer dereference, exactly on items that contain a null pointer.\<close>

theorem printer_reusable:
  "PrettyPrinter_getPrettyRepr (Some x) indent p =
     (if null_free x
      then Inr (pretty indent [] x,
        p\<lparr>prettyRepr := pretty indent [] x, indentLevel := indent, currentIndent := []\<rparr>)
      else Inl NullDeref)"
  using prints_iff [OF pp_visit_run, of x "p\<lparr>prettyRepr := [], indentLevel := indent, currentIndent := []\<rparr>"]
  by (simp add: PrettyPrinter_getPrettyRepr_def pp_emit_def)

text \<open>
  Quoting is injective: only quotes are escaped and not backslashes, but the closing quote of a
  printed string is known to be its last character.
\<close>

lemma replace_quote_hd:
  "replace_char s CHR ''\"'' (CHR 0x5C # ''\"'') \<noteq> CHR ''\"'' # r"
  by (cases s) auto

lemma replace_quote_inj:
  "replace_char s CHR ''\"'' (CHR 0x5C # ''\"'') = replace_char t CHR ''\"'' (CHR 0x5C # ''\"'') \<Longrightarrow> s = t"
proof (induction s arbitrary: t)
  case Nil
  then show ?case by (cases t) (auto split: if_splits)
next
  case (Cons c s)
  then obtain d t' where t: "t = d # t'" by (cases t) (auto split: if_splits)
  have "c = d \<and> replace_char s CHR ''\"'' (CHR 0x5C # ''\"'') = replace_char t' CHR ''\"'' (CHR 0x5C # ''\"'')"
    using Cons.prems replace_quote_hd [of s] replace_quote_hd [of t']
    by (auto simp: t split: if_splits)
      (metis replace_quote_hd)+
  then show ?case using Cons.IH [of t'] by (simp add: t)
qed

end
