(* ===== verification/SampleTool.thy ===== *)
theory SampleTool
  imports BCodec BPretty
begin

text \<open>
  The sample application of the bencoding library (\<open>sample/decoder.cpp\<close>): it decodes a file or its
  standard input and prints the item. \<open>fs\<close> gives the files that can be opened; a run that returns
  has an exit status and what it wrote to the two output streams.
\<close>

record tool_result =
  exit_status :: int
  std_out :: string
  std_err :: string

definition helpIsRequested :: "string list \<Rightarrow> bool" where
  "helpIsRequested argv \<longleftrightarrow> length argv = 2 \<and> (argv ! 1 = ''-h'' \<or> argv ! 1 = ''--help'')"

definition help_text :: "string \<Rightarrow> string" where
  "help_text prog = ''A decoder of bencoded files.\<newline>'' @ ''\<newline>'' @ ''Usage: '' @ prog @ '' [FILE]\<newline>'' @ ''\<newline>'' @
     ''If FILE is not given, the data are read from the standard input.\<newline>'' @
     ''The decoded data are printed to the standard output.\<newline>''"

text \<open>A stream on a file that could not be opened has failed before the first read.\<close>

definition ifstream :: "string option \<Rightarrow> istream" where
  "ifstream content = (case content of Some c \<Rightarrow> istringstream c
     | None \<Rightarrow> (istringstream [])\<lparr>failbit := True\<rparr>)"

text \<open>Only \<open>DecodingError\<close> is caught.\<close>

definition sample_main :: "cpp_env \<Rightarrow> (string \<Rightarrow> string option) \<Rightarrow> string \<Rightarrow> string list \<Rightarrow> tool_result res" where
  "sample_main env fs stdin argv =
     (if helpIsRequested argv
      then Inr \<lparr>exit_status = 0, std_out = help_text (argv ! 0), std_err = []\<rparr>
      else case decode_stream env (if 1 < length argv then ifstream (fs (argv ! 1)) else istringstream stdin) of
          Inl (DecodingError what) \<Rightarrow>
            Inr \<lparr>exit_status = 1, std_out = [], std_err = ''error: '' @ what @ ''\<newline>''\<rparr>
        | Inl AllocError \<Rightarrow> Inl StdException
        | Inl DecoderFuel \<Rightarrow> Inl OutOfFuel
        | Inr (x, _) \<Rightarrow> and_then (getPrettyRepr (Some x) default_indent) (\<lambda>t.
            Inr \<lparr>exit_status = 0, std_out = t @ ''\<newline>'', std_err = []\<rparr>))"

lemma getPrettyRepr_run:
  "null_free x \<Longrightarrow> getPrettyRepr (Some x) default_indent = Inr (pretty default_indent [] x)"
  using prints_iff [OF pp_visit_run, of x "PrettyPrinter_create\<lparr>prettyRepr := [], indentLevel := default_indent, currentIndent := []\<rparr>"]
  by (simp add: getPrettyRepr_def PrettyPrinter_getPrettyRepr_def pp_emit_def)

lemma decode_stream_null_free: "decode_stream env s = Inr (x, t) \<Longrightarrow> null_free x"
  unfolding decode_stream_def by (drule decode_ok(1)) (simp add: decoded_ok_def wf_null_free)

text \<open>C35: the tool prints what it is given: on a file, or on its input when there is no argument, that
  starts with the encoding of an item, it succeeds and writes the pretty representation of that item
  and nothing else, whatever follows the item.\<close>

theorem tool_prints_item:
  assumes "decodable env x"
  shows "sample_main env fs (bencode x @ rest) [prog] =
      Inr \<lparr>exit_status = 0, std_out = pretty default_indent [] x @ ''\<newline>'', std_err = []\<rparr> \<and>
    (fs f = Some (bencode x @ rest) \<longrightarrow> f \<notin> {''-h'', ''--help''} \<longrightarrow> sample_main env fs stdin (prog # f # argv) =
      Inr \<lparr>exit_status = 0, std_out = pretty default_indent [] x @ ''\<newline>'', std_err = []\<rparr>)"
proof -
  have "null_free x" using assms by (simp add: decodable_def wf_null_free)
  then show ?thesis
    using decode_stream_bencode [OF assms, of rest]
    by (simp add: sample_main_def helpIsRequested_def ifstream_def getPrettyRepr_run)
qed

theorem tool_prints_item_witness:
  "sample_main small_env (\<lambda>f. None) (bencode sample_item) [''decoder''] =
     Inr \<lparr>exit_status = 0, std_out = pretty default_indent [] sample_item @ ''\<newline>'', std_err = []\<rparr>"
  using tool_prints_item [OF sample_item_ok, of "\<lambda>f. None" "[]" "''decoder''"] by simp

text \<open>C36: the tool always ends in one of three ways: with status 0 and nothing on the error stream, with
  status 1, an error message and no output, or by the allocation failure it does not catch. No input
  makes the decoder run on or the printer meet a null pointer, and a file that cannot be opened is
  a decoding error.\<close>

theorem tool_outcomes:
  "(\<exists>t. sample_main env fs stdin argv = Inr \<lparr>exit_status = 0, std_out = t, std_err = []\<rparr>) \<or>
   (\<exists>w. sample_main env fs stdin argv = Inr \<lparr>exit_status = 1, std_out = [], std_err = ''error: '' @ w @ ''\<newline>''\<rparr>) \<or>
   sample_main env fs stdin argv = Inl StdException"
proof (cases "helpIsRequested argv")
  case False
  let ?s = "if 1 < length argv then ifstream (fs (argv ! 1)) else istringstream stdin"
  show ?thesis
  proof (cases "decode_stream env ?s")
    case (Inl e)
    then have "e \<noteq> DecoderFuel" using decode_stream_no_fuel [of env ?s] by simp
    with False Inl show ?thesis by (cases e) (simp_all add: sample_main_def)
  next
    case (Inr r)
    obtain x t where r: "r = (x, t)" by (cases r)
    with Inr decode_stream_null_free [of env ?s x t] False show ?thesis
      by (simp add: sample_main_def getPrettyRepr_run)
  qed
qed (simp add: sample_main_def)

lemma tool_missing_file:
  assumes "fs f = None" and "f \<notin> {''-h'', ''--help''}"
  shows "\<exists>w. sample_main env fs stdin [prog, f] = Inr \<lparr>exit_status = 1, std_out = [], std_err = ''error: '' @ w @ ''\<newline>''\<rparr>"
  using assms
  by (simp add: sample_main_def helpIsRequested_def ifstream_def decode_stream_def peek_def good_def
      unexpected_character_def)

end
