(* ===== verification/Simulation.thy ===== *)
theory Simulation
  imports Prelude
begin

text \<open>
  Step systems with labelled steps and what it takes for one to implement another: the traces of
  a system, the interface of a refinement (an invariant, and every step of the implementation is
  the step of the same label of the specification under an abstraction), and of a refinement that
  loses nothing. Both are interpreted on the dictionary and on the main loop of the client.
\<close>

subsection \<open>Traces\<close>

fun trace :: "('l \<Rightarrow> 's \<Rightarrow> 's \<Rightarrow> bool) \<Rightarrow> 'l list \<Rightarrow> 's \<Rightarrow> 's \<Rightarrow> bool" where
  "trace step [] s t \<longleftrightarrow> t = s"
| "trace step (l # ls) s t \<longleftrightarrow> (\<exists>u. step l s u \<and> trace step ls u t)"

lemma trace_append: "trace step (ls @ ms) s t \<longleftrightarrow> (\<exists>u. trace step ls s u \<and> trace step ms u t)"
  by (induction ls arbitrary: s) auto

lemma trace_function: "trace (\<lambda>l s t. t = f l s) ls s t \<longleftrightarrow> t = foldl (\<lambda>s l. f l s) s ls"
  by (induction ls arbitrary: s) auto

text \<open>A system that cannot move has only the empty trace.\<close>

lemma trace_stuck: "(\<And>l u. \<not> step l s u) \<Longrightarrow> trace step ls s t \<longleftrightarrow> ls = [] \<and> t = s"
  by (cases ls) auto

subsection \<open>Refinement\<close>

locale simulation =
  fixes cstep :: "'l \<Rightarrow> 'c \<Rightarrow> 'c \<Rightarrow> bool"
    and astep :: "'l \<Rightarrow> 'a \<Rightarrow> 'a \<Rightarrow> bool"
    and abs :: "'c \<Rightarrow> 'a"
    and inv :: "'c \<Rightarrow> bool"
  assumes inv_step: "inv s \<Longrightarrow> cstep l s t \<Longrightarrow> inv t"
    and abs_step: "inv s \<Longrightarrow> cstep l s t \<Longrightarrow> astep l (abs s) (abs t)"
begin

lemma inv_trace: "inv s \<Longrightarrow> trace cstep ls s t \<Longrightarrow> inv t"
  by (induction ls arbitrary: s) (auto dest: inv_step)

lemma abs_trace: "inv s \<Longrightarrow> trace cstep ls s t \<Longrightarrow> trace astep ls (abs s) (abs t)"
  by (induction ls arbitrary: s) (auto dest: inv_step abs_step)

end

locale bisimulation = simulation +
  assumes conc_step: "inv s \<Longrightarrow> astep l (abs s) b \<Longrightarrow> \<exists>t. cstep l s t \<and> abs t = b"
begin

lemma conc_trace: "inv s \<Longrightarrow> trace astep ls (abs s) b \<Longrightarrow> \<exists>t. trace cstep ls s t \<and> abs t = b"
proof (induction ls arbitrary: s)
  case (Cons l ls)
  then obtain u where u: "astep l (abs s) u" "trace astep ls u b" by auto
  from conc_step [OF Cons.prems(1) u(1)] obtain t where t: "cstep l s t" "abs t = u" by blast
  with Cons.IH [of t] inv_step [OF Cons.prems(1)] u(2) show ?case by auto
qed auto

text \<open>The traces of the implementation, seen through the abstraction, are those of the specification.\<close>

lemma trace_iff: "inv s \<Longrightarrow> (\<exists>t. trace cstep ls s t \<and> abs t = b) \<longleftrightarrow> trace astep ls (abs s) b"
  using abs_trace conc_trace by blast

end

end
