(* ===== verification/BContainers.thy ===== *)
theory BContainers
  imports BItems Simulation
begin

text \<open>
  The containers of the bencoding library through their public interface: iterators over lists
  and dictionaries, and any sequence of assignments through and reads of \<open>operator[]\<close> of a
  dictionary, shown to be a finite map that is iterated in the order of its keys.
\<close>

subsection \<open>Iterators\<close>

text \<open>An iterator is a position; the end iterator cannot be dereferenced.\<close>

definition BList_begin :: "blist \<Rightarrow> nat" where
  "BList_begin xs = 0"

definition BList_end :: "blist \<Rightarrow> nat" where
  "BList_end xs = length xs"

definition BDictionary_begin :: "bdict \<Rightarrow> nat" where
  "BDictionary_begin d = 0"

definition BDictionary_end :: "bdict \<Rightarrow> nat" where
  "BDictionary_end d = length d"

definition iter_deref :: "'a list \<Rightarrow> nat \<Rightarrow> 'a res" where
  "iter_deref xs i = (if i < length xs then Inr (xs ! i) else Inl OutOfBounds)"

text \<open>\<open>for (auto it = first; it != stop; ++it)\<close>: what it visits.\<close>

function iter_walk :: "'a list \<Rightarrow> nat \<Rightarrow> nat \<Rightarrow> 'a list res" where
  "iter_walk xs i stop =
     (if i = stop then Inr []
      else and_then (iter_deref xs i) (\<lambda>x.
           and_then (iter_walk xs (Suc i) stop) (\<lambda>ys. Inr (x # ys))))"
  by pat_completeness auto
termination
  by (relation "measure (\<lambda>(xs, i, j). length xs - i)") (auto simp: iter_deref_def split: if_splits)

declare iter_walk.simps [simp del]

text \<open>A range whose end can be reached by steps from its start.\<close>

locale iterable =
  fixes first stop :: "'c \<Rightarrow> nat" and elems :: "'c \<Rightarrow> 'a list"
  assumes first_start: "first c = 0"
    and stop_length: "stop c = length (elems c)"
begin

lemma walk_from: "i \<le> length (elems c) \<Longrightarrow> iter_walk (elems c) i (stop c) = Inr (drop i (elems c))"
proof (induction "length (elems c) - i" arbitrary: i)
  case 0
  then show ?case by (simp add: iter_walk.simps [of _ i] stop_length)
next
  case (Suc n)
  then have i: "i < length (elems c)" by simp
  have "iter_walk (elems c) (Suc i) (stop c) = Inr (drop (Suc i) (elems c))"
    by (rule Suc(1)) (use Suc(2) i in simp_all)
  then show ?case
    using i by (subst iter_walk.simps) (simp add: iter_deref_def stop_length Cons_nth_drop_Suc)
qed

text \<open>A loop from the first to the last iterator visits every element once, in order.\<close>

lemma walk_all: "iter_walk (elems c) (first c) (stop c) = Inr (elems c)"
  using walk_from [of 0 c] by (simp add: first_start)

lemma deref_stop: "iter_deref (elems c) (stop c) = Inl OutOfBounds"
  by (simp add: iter_deref_def stop_length)

end

interpretation blist_iter: iterable BList_begin BList_end "\<lambda>xs. xs"
  by unfold_locales (simp_all add: BList_begin_def BList_end_def)

interpretation bdict_iter: iterable BDictionary_begin BDictionary_end "\<lambda>d. d"
  by unfold_locales (simp_all add: BDictionary_begin_def BDictionary_end_def)

subsection \<open>A dictionary is a finite map\<close>

text \<open>What a user does with \<open>operator[]\<close>: assign to its result, or read it.\<close>

datatype dict_op =
    Assign string item_ptr
  | Access string

fun dict_run :: "dict_op \<Rightarrow> bdict \<Rightarrow> bdict" where
  "dict_run (Assign k v) d = dict_put k v d"
| "dict_run (Access k) d = snd (BDictionary_subscript k d)"

text \<open>The same on the abstract map: reading a missing key adds it with a null pointer.\<close>

fun map_run :: "dict_op \<Rightarrow> (string \<rightharpoonup> item_ptr) \<Rightarrow> (string \<rightharpoonup> item_ptr)" where
  "map_run (Assign k v) m = m(k \<mapsto> v)"
| "map_run (Access k) m = (case m k of None \<Rightarrow> m(k \<mapsto> None) | Some _ \<Rightarrow> m)"

lemma dict_put_map_upd: "dict_sorted d \<Longrightarrow> map_of (dict_put k v d) = (map_of d)(k \<mapsto> v)"
  by (auto simp: dict_put_map_of)

lemma dict_run_refines:
  assumes "dict_sorted d"
  shows "dict_sorted (dict_run op d) \<and> map_of (dict_run op d) = map_run op (map_of d)"
  using assms
  by (cases op)
    (auto simp: dict_put_map_upd dict_put_sorted BDictionary_subscript_def dict_find_map_of
      split: option.splits)

interpretation dict_map: bisimulation "\<lambda>op d d'. d' = dict_run op d" "\<lambda>op m m'. m' = map_run op m"
    map_of dict_sorted
  by unfold_locales (simp_all add: dict_run_refines)

text \<open>The entries of a map in the order of its keys; a dictionary in order is the entries of its map.\<close>

definition sorted_entries :: "(string \<rightharpoonup> item_ptr) \<Rightarrow> bdict" where
  "sorted_entries m = map (\<lambda>k. (k, the (m k))) (sorted_list_of_set (dom m))"

lemma sorted_entries_map_of:
  assumes "dict_sorted d"
  shows "sorted_entries (map_of d) = d"
proof -
  have s: "sorted_wrt (<) (map fst d)" using assms by (simp add: dict_sorted_less)
  then have dist: "distinct (map fst d)" by (simp add: strict_sorted_iff)
  have "sorted_list_of_set (dom (map_of d)) = map fst d"
    using s dist by (simp add: dom_map_of_conv_image_fst sorted_list_of_set.idem_if_sorted_distinct
        strict_sorted_imp_sorted flip: set_map)
  moreover have "map (\<lambda>k. (k, the (map_of d k))) (map fst d) = d"
    using dist by (auto simp: comp_def intro!: map_idI)
  ultimately show ?thesis by (simp add: sorted_entries_def)
qed

text \<open>C15: a dictionary is used as a finite map: after any sequence of assignments and reads through
  \<open>operator[]\<close> it holds what a map holds, iterating over it visits each key once in ascending order
  of the strings, however the keys came, and its size counts them. Reading a missing key adds it.\<close>

theorem dictionary_is_map:
  "let d = foldl (\<lambda>d op. dict_run op d) BDictionary_create ops;
       m = foldl (\<lambda>m op. map_run op m) Map.empty ops
   in map_of d = m \<and>
      iter_walk d (BDictionary_begin d) (BDictionary_end d) = Inr (sorted_entries m) \<and>
      BDictionary_size d = card (dom m) \<and> BDictionary_empty d = (m = Map.empty)"
proof -
  let ?d = "foldl (\<lambda>d op. dict_run op d) BDictionary_create ops"
  have run: "trace (\<lambda>op d d'. d' = dict_run op d) ops BDictionary_create ?d"
    by (simp add: trace_function)
  have d: "dict_sorted ?d" by (rule dict_map.inv_trace [OF bdict.inv_emp run])
  have m: "map_of ?d = foldl (\<lambda>m op. map_run op m) Map.empty ops"
    using dict_map.abs_trace [OF bdict.inv_emp run] by (simp add: trace_function BDictionary_create_def)
  have dist: "distinct (map fst (foldl (\<lambda>d op. dict_run op d) BDictionary_create ops))"
    using d by (simp add: dict_sorted_less strict_sorted_iff)
  show ?thesis
    unfolding Let_def m [symmetric] sorted_entries_map_of [OF d]
    using dist
    by (simp add: bdict_iter.walk_all BDictionary_size_def BDictionary_empty_def card_image distinct_map
        dom_map_of_conv_image_fst distinct_card [symmetric])
qed

end
