(* ===== verification/UnitTests.thy ===== *)
theory UnitTests
  imports BDecoder BContainers BPretty
begin

text \<open>
  The unit tests of the bencoding library (\<open>cpp-bencoding/tests\<close>), evaluated on the model: one list
  per section of a test file, one entry per test case, which is what its expectations amount to.
  All of them hold. The fixture's decoder, encoder and printer are fresh for every case.
\<close>

definition test_env :: cpp_env where
  "test_env = \<lparr>max_alloc = 1000, garbage = (\<lambda>_. 0)\<rparr>"

text \<open>\<open>putIntoErrorState\<close> sets \<open>badbit\<close>; the code under test only asks for \<open>fail()\<close>.\<close>

definition putIntoErrorState :: "istream \<Rightarrow> istream" where
  "putIntoErrorState s = s\<lparr>failbit := True\<rparr>"

definition putIntoEOFState :: "istream \<Rightarrow> istream" where
  "putIntoEOFState s = s\<lparr>eofbit := True\<rparr>"

subsection \<open>Decoder\<close>

text \<open>\<open>assertDecodedAs\<close> with the expectations on the parts, and \<open>EXPECT_THROW\<close>.\<close>

definition decoded_as :: "string \<Rightarrow> bitem \<Rightarrow> bool" where
  "decoded_as data x \<longleftrightarrow> decode_string test_env data = Inr x"

definition throws_decoding_error :: "decode_exn + 'a \<Rightarrow> bool" where
  "throws_decoding_error r = (case r of Inl (DecodingError _) \<Rightarrow> True | _ \<Rightarrow> False)"

definition decode_throws :: "string \<Rightarrow> bool" where
  "decode_throws data = throws_decoding_error (decode_string test_env data)"

definition decode_dictionary_tests :: "bool list" where
  "decode_dictionary_tests =
    [decoded_as ''de'' (BDictionary []),
     decoded_as ''d4:testi1ee'' (BDictionary [(''test'', Some (BInteger 1))]),
     decoded_as ''d5:test1i1e5:test2i2ee''
       (BDictionary [(''test1'', Some (BInteger 1)), (''test2'', Some (BInteger 2))]),
     decoded_as ''d1:bi2e1:ai1ee'' (BDictionary [(''a'', Some (BInteger 1)), (''b'', Some (BInteger 2))]),
     decode_throws ''d'',
     decode_throws ''di1ei2ee'']"

definition decode_integer_tests :: "bool list" where
  "decode_integer_tests =
    [decoded_as ''i0e'' (BInteger 0),
     decoded_as ''i13e'' (BInteger 13),
     decoded_as ''i+13e'' (BInteger 13),
     decoded_as ''i-13e'' (BInteger (- 13)),
     decode_throws ''i13'',
     decode_throws ''ie'',
     decode_throws ''i 1e'',
     decode_throws ''i1 e'',
     decode_throws ''i001e'',
     list_all decode_throws [''i e'', ''i+e'', ''i-e'', ''i1-e'', ''i1+e'', ''i$e'', ''i1.1e'']]"

definition decode_list_tests :: "bool list" where
  "decode_list_tests =
    [decoded_as ''le'' (BList []),
     decoded_as ''li1ee'' (BList [Some (BInteger 1)]),
     decoded_as ''l4:test5:helloe'' (BList [Some (BString ''test''), Some (BString ''hello'')]),
     list_all decode_throws [''li1e'', ''l4:test''],
     decode_throws ''l$e'']"

definition decode_string_tests :: "bool list" where
  "decode_string_tests =
    [decoded_as ''0:'' (BString []),
     decoded_as ''1:a'' (BString ''a''),
     decoded_as ''10:abcdefghij'' (BString ''abcdefghij''),
     decode_throws ''1a'',
     decode_throws ''3:aa'']"

definition decode_other_tests :: "bool list" where
  "decode_other_tests =
    [decode_throws [],
     throws_decoding_error (decode_stream test_env (putIntoEOFState (istringstream []))),
     throws_decoding_error (decode_stream test_env (putIntoErrorState (istringstream []))),
     decode_throws ''$'',
     decode_throws ''e'',
     decode_throws ''i1ei2e'',
     (case decode_stream test_env (istringstream ''i0e'') of
        Inr (x, _) \<Rightarrow> x = BInteger 0 | Inl _ \<Rightarrow> False),
     (case decode_stream test_env (istringstream ''i1ei2e'') of
        Inr (_, s) \<Rightarrow>
          (let (c1, s) = get_char s; (c2, s) = get_char s; (c3, s) = get_char s
           in (c1, c2, c3) = (Some CHR ''i'', Some CHR ''2'', Some CHR ''e''))
      | Inl _ \<Rightarrow> False),
     decoded_as ''i0e'' (BInteger 0),
     (case decode_stream test_env (istringstream ''i0e'') of
        Inr (x, _) \<Rightarrow> x = BInteger 0 | Inl _ \<Rightarrow> False)]"

lemma decode_dictionary_tests_pass: "list_all id decode_dictionary_tests"
  by code_simp

lemma decode_integer_tests_pass: "list_all id decode_integer_tests"
  by code_simp

lemma decode_list_tests_pass: "list_all id decode_list_tests"
  by code_simp

lemma decode_string_tests_pass: "list_all id decode_string_tests"
  by code_simp

lemma decode_other_tests_pass: "list_all id decode_other_tests"
  by code_simp

subsection \<open>Encoder\<close>

definition encoded_as :: "bitem \<Rightarrow> string \<Rightarrow> bool" where
  "encoded_as x t \<longleftrightarrow> and_then (Encoder_encode (Some x) Encoder_create) (\<lambda>r. Inr (fst r)) = Inr t"

definition one_item :: bdict where
  "one_item = dict_put ''test'' (Some (BInteger 1)) BDictionary_create"

definition two_items :: bdict where
  "two_items = dict_put ''test2'' (Some (BInteger 2))
     (dict_put ''test1'' (Some (BInteger 1)) BDictionary_create)"

definition push_all :: "bitem list \<Rightarrow> blist res" where
  "push_all xs = foldl (\<lambda>r x. and_then r (\<lambda>l. BList_push_back l (Some x))) (Inr BList_create) xs"

definition two_strings :: "blist res" where
  "two_strings = push_all [BString ''test'', BString ''hello'']"

definition encode_dictionary_tests :: "bool list" where
  "encode_dictionary_tests =
    [encoded_as (BDictionary BDictionary_create) ''de'',
     encoded_as (BDictionary one_item) ''d4:testi1ee'',
     encoded_as (BDictionary two_items) ''d5:test1i1e5:test2i2ee'']"

definition encode_integer_tests :: "bool list" where
  "encode_integer_tests =
    [encoded_as (BInteger 0) ''i0e'', encoded_as (BInteger 13) ''i13e'',
     encoded_as (BInteger (- 13)) ''i-13e'']"

definition encode_list_tests :: "bool list" where
  "encode_list_tests =
    [encoded_as (BList BList_create) ''le'',
     and_then two_strings (\<lambda>l. encode (Some (BList l))) = Inr ''l4:test5:helloe'']"

definition encode_string_tests :: "bool list" where
  "encode_string_tests = [encoded_as (BString []) ''0:'', encoded_as (BString ''test'') ''4:test'']"

definition encode_other_tests :: "bool list" where
  "encode_other_tests = [encode (Some (BInteger 0)) = Inr ''i0e'']"

lemma encode_tests_pass:
  "list_all id (encode_dictionary_tests @ encode_integer_tests @ encode_list_tests @ encode_string_tests @
     encode_other_tests)"
  by code_simp

subsection \<open>Pretty printer\<close>

fun join_lines :: "string list \<Rightarrow> string" where
  "join_lines [] = []"
| "join_lines [l] = l"
| "join_lines (l # m # ls) = l @ CHR 0x0A # join_lines (m # ls)"

definition printed_as :: "bitem \<Rightarrow> string list \<Rightarrow> bool" where
  "printed_as x ls \<longleftrightarrow>
     and_then (PrettyPrinter_getPrettyRepr (Some x) default_indent PrettyPrinter_create) (\<lambda>r. Inr (fst r)) =
     Inr (join_lines ls)"

definition in_quotes :: "string \<Rightarrow> string" where
  "in_quotes s = [CHR 0x22] @ s @ [CHR 0x22]"

definition print_dictionary_tests :: "bool list" where
  "print_dictionary_tests =
    [printed_as (BDictionary BDictionary_create) [''{'', ''}''],
     printed_as (BDictionary one_item) [''{'', ''    '' @ in_quotes ''test'' @ '': 1'', ''}''],
     printed_as (BDictionary two_items)
       [''{'', ''    '' @ in_quotes ''test1'' @ '': 1,'', ''    '' @ in_quotes ''test2'' @ '': 2'', ''}'']]"

definition print_integer_tests :: "bool list" where
  "print_integer_tests =
    [printed_as (BInteger 0) [''0''], printed_as (BInteger 13) [''13''],
     printed_as (BInteger (- 13)) [''-13'']]"

definition print_list_tests :: "bool list" where
  "print_list_tests =
    [printed_as (BList BList_create) [''['', '']''],
     (case two_strings of Inl _ \<Rightarrow> False
      | Inr l \<Rightarrow> printed_as (BList l)
          [''['', ''    '' @ in_quotes ''test'' @ '','', ''    '' @ in_quotes ''hello'', '']''])]"

definition print_string_tests :: "bool list" where
  "print_string_tests =
    [printed_as (BString []) [in_quotes []], printed_as (BString ''test'') [in_quotes ''test''],
     printed_as (BString (''te'' @ [CHR 0x22] @ ''st'')) [in_quotes (''te'' @ [CHR 0x5C, CHR 0x22] @ ''st'')]]"

definition print_other_tests :: "bool list" where
  "print_other_tests =
    [getPrettyRepr (Some (BDictionary one_item)) default_indent =
       Inr (join_lines [''{'', ''    '' @ in_quotes ''test'' @ '': 1'', ''}''])]"

lemma print_tests_pass:
  "list_all id (print_dictionary_tests @ print_integer_tests @ print_list_tests @ print_string_tests @
     print_other_tests)"
  by code_simp

subsection \<open>Strings, lists and dictionaries\<close>

definition BString_tests :: "bool list" where
  "BString_tests =
    [BString_value (BString ''test'') = Inr ''test'',
     and_then (BString_setValue (BString ''test'') ''other'') BString_value = Inr ''other'',
     BString_length (BString ''test'') = Inr 4]"

definition BInteger_tests :: "bool list" where
  "BInteger_tests =
    [BInteger_value (BInteger 5) = Inr 5,
     and_then (BInteger_setValue (BInteger 5) 10) BInteger_value = Inr 10]"

definition two_ints :: "blist res" where
  "two_ints = push_all [BInteger 1, BInteger 2]"

text \<open>Item by item from the begin iterator to the end iterator.\<close>

definition walked :: "blist \<Rightarrow> blist res" where
  "walked l = iter_walk l (BList_begin l) (BList_end l)"

definition BList_tests :: "bool list" where
  "BList_tests =
    [BList_empty BList_create,
     BList_empty (BList_create_items []),
     and_then (push_all [BInteger 1]) (\<lambda>l. Inr (BList_empty l)) = Inr False,
     BList_size BList_create = 0 \<and> and_then (push_all [BInteger 1]) (\<lambda>l. Inr (BList_size l)) = Inr 1 \<and>
       and_then (push_all [BInteger 1, BInteger 1]) (\<lambda>l. Inr (BList_size l)) = Inr 2,
     (let l = BList_create_items [Some (BInteger 1), Some (BInteger 2)] in
       BList_size l = 2 \<and> BList_front l = Inr (Some (BInteger 1)) \<and> BList_back l = Inr (Some (BInteger 2))),
     and_then two_ints (\<lambda>l. Inr (BList_size l)) = Inr 2 \<and>
       and_then (and_then two_ints BList_pop_back) (\<lambda>l. Inr (BList_size l)) = Inr 1 \<and>
       and_then (and_then two_ints BList_pop_back) BList_front = Inr (Some (BInteger 1)),
     and_then two_ints BList_front = Inr (Some (BInteger 1)),
     and_then two_ints BList_front = Inr (Some (BInteger 1)),
     and_then two_ints BList_back = Inr (Some (BInteger 2)),
     and_then two_ints BList_back = Inr (Some (BInteger 2)),
     BList_begin BList_create = BList_end BList_create,
     and_then two_ints walked = Inr [Some (BInteger 1), Some (BInteger 2)],
     BList_begin BList_create = BList_end BList_create,
     and_then two_ints walked = Inr [Some (BInteger 1), Some (BInteger 2)],
     BList_begin BList_create = BList_end BList_create,
     and_then two_ints walked = Inr [Some (BInteger 1), Some (BInteger 2)]]"

text \<open>Pointers compare by the items behind them.\<close>

definition BDictionary_tests :: "bool list" where
  "BDictionary_tests =
    [BDictionary_empty BDictionary_create,
     BDictionary_empty (BDictionary_create_items []),
     \<not> BDictionary_empty one_item,
     BDictionary_size BDictionary_create = 0 \<and> BDictionary_size one_item = 1 \<and>
       BDictionary_size (dict_put ''test2'' (Some (BInteger 2)) one_item) = 2,
     (let d = BDictionary_create_items [(''test1'', Some (BInteger 1)), (''test2'', Some (BInteger 2))] in
       BDictionary_size d = 2 \<and> iter_deref d (BDictionary_begin d) = Inr (''test1'', Some (BInteger 1)) \<and>
       iter_deref d (Suc (BDictionary_begin d)) = Inr (''test2'', Some (BInteger 2))),
     fst (BDictionary_subscript ''test'' (dict_put ''test'' (Some (BInteger 1)) one_item)) = Some (BInteger 1),
     fst (BDictionary_subscript ''test'' BDictionary_create) = None,
     BDictionary_begin BDictionary_create = BDictionary_end BDictionary_create,
     BDictionary_begin BDictionary_create = BDictionary_end BDictionary_create,
     BDictionary_begin BDictionary_create = BDictionary_end BDictionary_create,
     (let d = dict_put ''a'' (Some (BInteger 1)) (dict_put ''b'' (Some (BInteger 2)) BDictionary_create) in
       iter_walk d (BDictionary_begin d) (BDictionary_end d) =
         Inr [(''a'', Some (BInteger 1)), (''b'', Some (BInteger 2))])]"

lemma BString_tests_pass: "list_all id (BString_tests @ BInteger_tests)"
  by code_simp

lemma BList_tests_pass: "list_all id BList_tests"
  by code_simp

lemma BDictionary_tests_pass: "list_all id BDictionary_tests"
  by code_simp

subsection \<open>Helpers\<close>

text \<open>
  The tests use an instance of \<open>strToNum\<close> the library does not: \<open>int\<close>, with either base. For
  hexadecimal numbers a prefix \<open>0x\<close> is skipped, which takes a digit after it.
\<close>

datatype stream_base = Dec | Hex

definition is_xdigit :: "char \<Rightarrow> bool" where
  "is_xdigit c \<longleftrightarrow> is_digit c \<or> c \<in> set ''abcdefABCDEF''"

definition xdigit_value :: "char \<Rightarrow> nat" where
  "xdigit_value c =
     (if is_digit c then digit_value c
      else if 97 \<le> (of_char c :: nat) then of_char c - 87 else of_char c - 55)"

definition scan_hex :: "string \<Rightarrow> bool \<times> string \<times> string" where
  "scan_hex str =
     (let s = dropWhile is_space str;
          signed = (s \<noteq> [] \<and> (hd s = CHR ''-'' \<or> hd s = CHR ''+''));
          body = (if signed then tl s else s);
          ds = (if take 2 body = ''0x'' \<or> take 2 body = ''0X'' then drop 2 body else body)
      in (s \<noteq> [] \<and> hd s = CHR ''-'', takeWhile is_xdigit ds, dropWhile is_xdigit ds))"

definition scan_value :: "stream_base \<Rightarrow> string \<Rightarrow> int" where
  "scan_value format ds =
     (case format of Dec \<Rightarrow> int (dec_value ds)
      | Hex \<Rightarrow> foldl (\<lambda>n c. 16 * n + int (xdigit_value c)) 0 ds)"

definition strToNum_int :: "string \<Rightarrow> int \<Rightarrow> stream_base \<Rightarrow> bool \<times> int" where
  "strToNum_int str num format =
     (case (case format of Dec \<Rightarrow> scan_int str | Hex \<Rightarrow> scan_hex str) of (neg, ds, rest) \<Rightarrow>
        let v = (if neg then - scan_value format ds else scan_value format ds) in
        if ds \<noteq> [] \<and> - (2 ^ 31) \<le> v \<and> v < 2 ^ 31 \<and> rest = [] then (True, v) else (False, num))"

definition strToNum_tests :: "bool list" where
  "strToNum_tests =
    [list_all (\<lambda>(s, n). strToNum_int s 0 Dec = (True, n))
       [(''-1000'', - 1000), (''-1'', - 1), (''0'', 0), (''1'', 1), (''1000'', 1000), (''0000'', 0), (''0003'', 3)],
     list_all (\<lambda>s. strToNum_int s (- 1) Dec = (False, - 1)) [[], ''zzz'', ''13 something'', ''13something''],
     list_all (\<lambda>(s, n). strToNum_int s 0 Hex = (True, n))
       [(''-0x3E8'', - 0x3E8), (''-0x1'', - 0x1), (''0x0'', 0x0), (''0x1'', 0x1), (''0x3E8'', 0x3E8), (''0x00C'', 0x00C)],
     list_all (\<lambda>s. strToNum_int s (- 1) Hex = (False, - 1)) [[], ''0x'', ''zz'', ''0xC something'', ''0xCsomething'']]"

text \<open>The result and the data read, for the stream as it is or after a state was set.\<close>

definition readUpTo_tests :: "bool list" where
  "readUpTo_tests =
    (let read = (\<lambda>s. case readUpTo s [] CHR ''$'' of (ok, readData, _) \<Rightarrow> (ok, readData));
         input = istringstream ''abcd$'' in
    [read input = (True, ''abcd''),
     \<not> fst (read (istringstream ''abcd'')),
     snd (read (istringstream ''abcd'')) = ''abcd'',
     \<not> fst (read (putIntoErrorState input)),
     snd (read (putIntoErrorState (istringstream ''abc$''))) = [],
     \<not> fst (read (putIntoEOFState input)),
     snd (read (putIntoEOFState input)) = []])"

definition readUntil_tests :: "bool list" where
  "readUntil_tests =
    (let read = (\<lambda>s. case readUntil s [] CHR ''$'' of (ok, readData, _) \<Rightarrow> (ok, readData));
         input = istringstream ''abcd$'' in
    [read input = (True, ''abcd$''),
     \<not> fst (read (istringstream ''abcd'')),
     snd (read (istringstream ''abcd'')) = ''abcd'',
     snd (read (putIntoErrorState input)) = [],
     \<not> fst (read (putIntoEOFState (istringstream ''abc$''))),
     snd (read (putIntoEOFState input)) = []])"

definition replace_tests :: "bool list" where
  "replace_tests =
    [replace_char [] CHR ''x'' ''X'' = [],
     replace_char ''abcd'' CHR ''x'' ''X'' = ''abcd'',
     replace_char ''abcd'' CHR ''a'' ''A'' = ''Abcd'',
     replace_char ''abca'' CHR ''a'' ''A'' = ''AbcA'',
     replace_char ''abca'' CHR ''a'' ''XXXX'' = ''XXXXbcXXXX'',
     replace_char ''abca'' CHR ''a'' [] = ''bc'']"

lemma strToNum_tests_pass: "list_all id strToNum_tests"
  by code_simp

lemma read_tests_pass: "list_all id (readUpTo_tests @ readUntil_tests)"
  by code_simp

lemma replace_tests_pass: "list_all id replace_tests"
  by code_simp

end
