(* ===== verification/CMemory.thy ===== *)
theory CMemory
  imports Prelude
begin

text \<open>
  Objects of the C memory as the program uses them: an allocated block is the list of its
  bytes, a pointer into it an index, and every access is checked against the block's size.
  \<open>load_n\<close> and \<open>store_n\<close> are \<open>memcpy\<close> out of and into a block, \<open>bzero\<close> clears a range,
  \<open>load32\<close> and \<open>store32\<close> are the accesses through a \<open>uint32_t\<close> pointer combined with
  \<open>ntohl\<close> and \<open>htonl\<close> (network byte order, so the host's byte order does not matter).
\<close>

type_synonym mem = "byte list"

definition load :: "'a list \<Rightarrow> nat \<Rightarrow> 'a res" where
  "load m i = (if i < length m then Inr (m ! i) else Inl OutOfBounds)"

definition store :: "'a list \<Rightarrow> nat \<Rightarrow> 'a \<Rightarrow> 'a list res" where
  "store m i x = (if i < length m then Inr (m[i := x]) else Inl OutOfBounds)"

definition load_n :: "'a list \<Rightarrow> nat \<Rightarrow> nat \<Rightarrow> 'a list res" where
  "load_n m i n = (if i + n \<le> length m then Inr (take n (drop i m)) else Inl OutOfBounds)"

definition store_n :: "'a list \<Rightarrow> nat \<Rightarrow> 'a list \<Rightarrow> 'a list res" where
  "store_n m i xs =
     (if i + length xs \<le> length m then Inr (take i m @ xs @ drop (i + length xs) m)
      else Inl OutOfBounds)"

definition bzero :: "mem \<Rightarrow> nat \<Rightarrow> mem res" where
  "bzero m n = store_n m 0 (replicate n 0)"

text \<open>An output parameter \<open>size_t *p\<close>: \<open>None\<close> is the null pointer.\<close>

type_synonym size_ptr = "int64 option"

definition put_size :: "size_ptr \<Rightarrow> int64 \<Rightarrow> size_ptr res" where
  "put_size p n = (case p of None \<Rightarrow> Inl NullDeref | Some _ \<Rightarrow> Inr (Some n))"

subsection \<open>Network byte order\<close>

definition be32 :: "int32 \<Rightarrow> mem" where
  "be32 w = [ucast (drop_bit 24 w), ucast (drop_bit 16 w), ucast (drop_bit 8 w), ucast w]"

definition of_be32 :: "mem \<Rightarrow> int32" where
  "of_be32 bs = foldl (\<lambda>acc b. push_bit 8 acc OR ucast b) 0 bs"

definition load32 :: "mem \<Rightarrow> nat \<Rightarrow> int32 res" where
  "load32 m i = and_then (load_n m i 4) (\<lambda>bs. Inr (of_be32 bs))"

definition store32 :: "mem \<Rightarrow> nat \<Rightarrow> int32 \<Rightarrow> mem res" where
  "store32 m i w = store_n m i (be32 w)"

lemma length_be32 [simp]: "length (be32 w) = 4"
  by (simp add: be32_def)

lemma of_be32_bytes:
  "of_be32 [a, b, c, d] =
     push_bit 24 (ucast a) OR push_bit 16 (ucast b) OR push_bit 8 (ucast c) OR ucast d"
  by (simp add: of_be32_def push_bit_or push_bit_push_bit or.assoc)

lemma of_be32_be32 [simp]: "of_be32 (be32 w) = w"
proof (rule bit_word_eqI)
  fix n
  assume "n < LENGTH(32)"
  then have "n < 32" by simp
  then show "bit (of_be32 (be32 w)) n = bit w n"
    unfolding be32_def of_be32_bytes
    by (simp add: bit_or_iff bit_push_bit_iff bit_drop_bit_eq bit_ucast_iff) (cases "n < 8"; cases "n < 16"; cases "n < 24"; auto)
qed

lemma be32_inj: "be32 v = be32 w \<longleftrightarrow> v = w"
  by (metis of_be32_be32)

definition read_be32 :: "mem \<Rightarrow> fault + int32 \<times> mem" where
  "read_be32 bs = and_then (load32 bs 0) (\<lambda>w. Inr (w, drop 4 bs))"

interpretation net32: prefix_codec be32 read_be32 "\<lambda>_. True"
  by unfold_locales (simp add: read_be32_def load32_def load_n_def)

subsection \<open>Running loads and stores\<close>

lemma load_in [mem_simps]: "i < length m \<Longrightarrow> load m i = Inr (m ! i)"
  by (simp add: load_def)

lemma load_out: "length m \<le> i \<Longrightarrow> load m i = Inl OutOfBounds"
  by (simp add: load_def)

lemma store_in [mem_simps]: "i < length m \<Longrightarrow> store m i x = Inr (m[i := x])"
  by (simp add: store_def)

lemma load_n_in [mem_simps]: "i + n \<le> length m \<Longrightarrow> load_n m i n = Inr (take n (drop i m))"
  by (simp add: load_n_def)

lemma store_n_in [mem_simps]:
  "i + length xs \<le> length m \<Longrightarrow>
     store_n m i xs = Inr (take i m @ xs @ drop (i + length xs) m)"
  by (simp add: store_n_def)

lemma store32_in [mem_simps]:
  "i + 4 \<le> length m \<Longrightarrow> store32 m i w = Inr (take i m @ be32 w @ drop (i + 4) m)"
  by (simp add: store32_def store_n_def)

lemma store32_out [mem_simps]: "length m < i + 4 \<Longrightarrow> store32 m i w = Inl OutOfBounds"
  by (simp add: store32_def store_n_def)

lemma load32_in [mem_simps]:
  "i + 4 \<le> length m \<Longrightarrow> load32 m i = Inr (of_be32 (take 4 (drop i m)))"
  by (simp add: load32_def load_n_def)

lemma bzero_in [mem_simps]: "n \<le> length m \<Longrightarrow> bzero m n = Inr (replicate n 0 @ drop n m)"
  by (simp add: bzero_def store_n_def)

lemma bzero_out: "length m < n \<Longrightarrow> bzero m n = Inl OutOfBounds"
  by (simp add: bzero_def store_n_def)

lemma put_size_simps [simp]:
  "put_size None n = Inl NullDeref"
  "put_size (Some s) n = Inr (Some n)"
  by (simp_all add: put_size_def)

lemma store_length: "store m i x = Inr m' \<Longrightarrow> length m' = length m"
  by (auto simp: store_def split: if_splits)

lemma store_n_length: "store_n m i xs = Inr m' \<Longrightarrow> length m' = length m"
  by (auto simp: store_n_def split: if_splits)

text \<open>Two adjacent writes are one.\<close>

lemma store_n_append:
  "and_then (store_n m i xs) (\<lambda>m. and_then (store_n m (i + length xs) ys) f) =
     and_then (store_n m i (xs @ ys)) f"
proof (cases "i + length xs + length ys \<le> length m")
  case True
  then have "take (i + length xs) (take i m @ xs @ drop (i + length xs) m) = take i m @ xs"
    by simp
  moreover have "drop (i + length xs + length ys) (take i m @ xs @ drop (i + length xs) m) =
      drop (i + length (xs @ ys)) m"
    using True by (simp add: ac_simps)
  ultimately show ?thesis using True by (simp add: store_n_def)
next
  case False
  then show ?thesis by (auto simp: store_n_def)
qed

lemma take_store_n_prefix:
  "length xs = n \<Longrightarrow> take n (xs @ m) = xs"
  by simp

subsection \<open>C strings\<close>

text \<open>
  \<open>strcmp\<close> on two blocks, as the test for equality: it reads both up to the first
  difference or a common terminating zero, and faults when it runs off a block.
\<close>

fun strcmp_eq :: "'a::zero list \<Rightarrow> 'a list \<Rightarrow> bool res" where
  "strcmp_eq (x # xs) (y # ys) =
     (if x \<noteq> y then Inr False else if x = 0 then Inr True else strcmp_eq xs ys)"
| "strcmp_eq _ _ = Inl OutOfBounds"

lemma strcmp_eq_terminated:
  assumes "\<forall>x \<in> set xs. x \<noteq> 0" and "\<forall>y \<in> set ys. y \<noteq> 0"
  shows "strcmp_eq (xs @ 0 # r) (ys @ 0 # s) = Inr (xs = ys)"
  using assms
proof (induction xs arbitrary: ys)
  case Nil
  then show ?case by (cases ys) auto
next
  case (Cons x xs)
  then show ?case by (cases ys) auto
qed

end
