(* ===== verification/BencodeC.thy ===== *)
theory BencodeC
  imports CMemory BSyntax
begin

text \<open>
  The C bencode library (\<open>bencode/bencode.c\<close>), which the client uses for metafiles and tracker
  responses. A \<open>be_node\<close> is a tree; a \<open>char *\<close> string of it is the bytes its length prefix
  announces (\<open>None\<close> is the null pointer), a list is the array up to its null terminator, and a
  dictionary the array of its slots, whose value pointers can be null. The decoder's
  \<open>const char **data\<close> is the list of the bytes from the pointer to the end of the buffer; the
  count \<open>data_len\<close> runs beside it and is not tied to it. \<open>malloc\<close> is taken to succeed.
\<close>

datatype be_node =
    BE_STR "string option"
  | BE_INT int64
  | BE_LIST "be_node list"
  | BE_DICT "(string option \<times> be_node option) list"

type_synonym be_slot = "string option \<times> be_node option"
type_synonym cursor = "string \<times> int"

lemma be_node_induct [case_names BE_STR BE_INT BE_LIST BE_DICT]:
  assumes "\<And>s. P (BE_STR s)" and "\<And>i. P (BE_INT i)"
    and "\<And>xs. (\<And>y. y \<in> set xs \<Longrightarrow> P y) \<Longrightarrow> P (BE_LIST xs)"
    and "\<And>d. (\<And>k y. (k, Some y) \<in> set d \<Longrightarrow> P y) \<Longrightarrow> P (BE_DICT d)"
  shows "P x"
proof (induction x)
  case (BE_LIST xs)
  then show ?case by (intro assms(3))
next
  case (BE_DICT d)
  then show ?case by (intro assms(4)) (force simp: snds.simps)
qed (fact assms)+

subsection \<open>Decoder\<close>

definition deref :: "cursor \<Rightarrow> char res" where
  "deref cur = (case fst cur of [] \<Rightarrow> Inl OutOfBounds | c # _ \<Rightarrow> Inr c)"

definition eat_n :: "nat \<Rightarrow> cursor \<Rightarrow> cursor" where
  "eat_n n cur = (drop n (fst cur), snd cur - int n)"

definition LLONG_MAX :: int where
  "LLONG_MAX = 2 ^ 63 - 1"

definition LLONG_MIN :: int where
  "LLONG_MIN = - (2 ^ 63)"

text \<open>
  \<open>strtoll\<close> in base 10: the value, clamped to the range of \<open>long long\<close>, and how many bytes it
  consumed: none when no digits follow the blanks and the sign. It stops at a byte it has read,
  so it reads past a buffer that ends before one.
\<close>

definition strtoll :: "string \<Rightarrow> (int64 \<times> nat) res" where
  "strtoll s =
     (let t = dropWhile is_space s;
          signed = (t \<noteq> [] \<and> (hd t = CHR ''-'' \<or> hd t = CHR ''+''));
          body = (if signed then tl t else t);
          ds = takeWhile is_digit body;
          v = (if signed \<and> hd t = CHR ''-'' then - int (dec_value ds) else int (dec_value ds))
      in if dropWhile is_digit body = [] then Inl OutOfBounds
         else if ds = [] then Inr (0, 0)
         else Inr (word_of_int (max LLONG_MIN (min LLONG_MAX v)),
                   length s - length (dropWhile is_digit body)))"

definition be_decode_int :: "cursor \<Rightarrow> (int64 \<times> cursor) res" where
  "be_decode_int cur = and_then (strtoll (fst cur)) (\<lambda>(v, n). Inr (v, eat_n n cur))"

definition be_decode_str :: "cursor \<Rightarrow> (string option \<times> cursor) res" where
  "be_decode_str cur =
     and_then (be_decode_int cur) (\<lambda>(sllen, cur).
       if sint sllen < 0 then Inr (None, cur)
       else if snd cur - 1 < sint sllen then Inr (None, cur)
       else let len = nat (sint sllen) in
         and_then (deref cur) (\<lambda>c.
           if c = CHR '':'' then
             and_then (load_n (fst cur) 1 len) (\<lambda>s. Inr (Some s, eat_n (len + 1) cur))
           else Inr (None, cur)))"

text \<open>
  The test \<open>!ret->val.l[i]\<close> in the dictionary loop reads the array of key/value pairs as an
  array of pointers: word \<open>i\<close> of it is the key or the value of slot \<open>i div 2\<close>.
\<close>

definition word_null :: "be_slot list \<Rightarrow> nat \<Rightarrow> bool" where
  "word_null d i =
     (if even i then fst (d ! (i div 2)) = None else snd (d ! (i div 2)) = None)"

text \<open>
  The result of the dictionary loop carries whether the array was ever allocated: writing the
  terminator into an unallocated one dereferences a null pointer. The slot the loop breaks in
  is overwritten by the terminator.
\<close>

fun be_dec :: "nat \<Rightarrow> cursor \<Rightarrow> (be_node option \<times> cursor) res"
  and be_dec_list :: "nat \<Rightarrow> cursor \<Rightarrow> (be_node list \<times> cursor) res"
  and be_dec_dict :: "nat \<Rightarrow> be_slot list \<Rightarrow> cursor \<Rightarrow> (be_slot list \<times> bool \<times> cursor) res" where
  "be_dec 0 cur = Inl OutOfFuel"
| "be_dec (Suc n) cur =
     (if snd cur = 0 then Inr (None, cur)
      else and_then (deref cur) (\<lambda>c.
        if c = CHR ''l'' then
          and_then (be_dec_list n (eat_n 1 cur)) (\<lambda>(xs, cur). Inr (Some (BE_LIST xs), eat_n 1 cur))
        else if c = CHR ''d'' then
          and_then (be_dec_dict n [] (eat_n 1 cur)) (\<lambda>(d, allocated, cur).
            if allocated then Inr (Some (BE_DICT d), eat_n 1 cur) else Inl NullDeref)
        else if c = CHR ''i'' then
          and_then (be_decode_int (eat_n 1 cur)) (\<lambda>(v, cur).
            and_then (deref cur) (\<lambda>c.
              if c \<noteq> CHR ''e'' then Inr (None, cur) else Inr (Some (BE_INT v), eat_n 1 cur)))
        else if is_digit c then
          and_then (be_decode_str cur) (\<lambda>(s, cur). Inr (Some (BE_STR s), cur))
        else Inr (None, cur)))"
| "be_dec_list 0 cur = Inl OutOfFuel"
| "be_dec_list (Suc n) cur =
     and_then (deref cur) (\<lambda>c.
       if c = CHR ''e'' then Inr ([], cur)
       else and_then (be_dec n cur) (\<lambda>(p, cur).
         case p of None \<Rightarrow> Inr ([], cur)
         | Some x \<Rightarrow> and_then (be_dec_list n cur) (\<lambda>(xs, cur). Inr (x # xs, cur))))"
| "be_dec_dict 0 d cur = Inl OutOfFuel"
| "be_dec_dict (Suc n) d cur =
     and_then (deref cur) (\<lambda>c.
       if c = CHR ''e'' then Inr (d, d \<noteq> [], cur)
       else and_then (be_decode_str cur) (\<lambda>(k, cur).
         and_then (be_dec n cur) (\<lambda>(p, cur).
           if word_null (d @ [(k, p)]) (length d) then Inr (d, True, cur)
           else be_dec_dict n (d @ [(k, p)]) cur)))"

definition be_decoden :: "string \<Rightarrow> int \<Rightarrow> be_node option res" where
  "be_decoden data len =
     and_then (be_dec (4 * length data + 1) (data, len)) (\<lambda>(p, cur). Inr p)"

text \<open>\<open>be_decode\<close> on a buffer that holds a C string.\<close>

definition c_str :: "string \<Rightarrow> string" where
  "c_str s = takeWhile (\<lambda>c. c \<noteq> CHR 0x00) s"

definition be_decode :: "string \<Rightarrow> be_node option res" where
  "be_decode data =
     (if CHR 0x00 \<in> set data then be_decoden data (int (length (c_str data)))
      else Inl OutOfBounds)"

subsection \<open>Accessors\<close>

definition be_str_len :: "be_node \<Rightarrow> nat res" where
  "be_str_len node =
     (case node of BE_STR None \<Rightarrow> Inr 0 | BE_STR (Some s) \<Rightarrow> Inr (length s)
      | _ \<Rightarrow> Inl TypeConfusion)"

definition val_s :: "be_node \<Rightarrow> string res" where
  "val_s node = (case node of BE_STR None \<Rightarrow> Inl NullDeref | BE_STR (Some s) \<Rightarrow> Inr s
      | _ \<Rightarrow> Inl TypeConfusion)"

definition val_i :: "be_node \<Rightarrow> int64 res" where
  "val_i node = (case node of BE_INT i \<Rightarrow> Inr i | _ \<Rightarrow> Inl TypeConfusion)"

definition val_l :: "be_node \<Rightarrow> be_node list res" where
  "val_l node = (case node of BE_LIST xs \<Rightarrow> Inr xs | _ \<Rightarrow> Inl TypeConfusion)"

text \<open>A loop over a dictionary stops at the first slot whose value is null.\<close>

definition live :: "be_slot list \<Rightarrow> (string option \<times> be_node) list" where
  "live d = map (\<lambda>(k, p). (k, the p)) (takeWhile (\<lambda>(k, p). p \<noteq> None) d)"

definition val_d :: "be_node \<Rightarrow> (string option \<times> be_node) list res" where
  "val_d node = (case node of BE_DICT d \<Rightarrow> Inr (live d) | _ \<Rightarrow> Inl TypeConfusion)"

text \<open>\<open>strcmp(key, lit) == 0\<close>: keys end in a zero byte and may contain others.\<close>

definition key_is :: "string option \<Rightarrow> string \<Rightarrow> bool res" where
  "key_is k lit = (case k of None \<Rightarrow> Inl NullDeref | Some s \<Rightarrow> Inr (c_str s = lit))"

subsection \<open>Text of a tree\<close>

fun be_text :: "be_node \<Rightarrow> string" where
  "be_text (BE_STR s) = (case s of None \<Rightarrow> [] | Some s \<Rightarrow> benc_str s)"
| "be_text (BE_INT i) = benc_int i"
| "be_text (BE_LIST xs) = ''l'' @ concat (map be_text xs) @ ''e''"
| "be_text (BE_DICT d) =
     ''d'' @ concat (map (\<lambda>e. (case fst e of None \<Rightarrow> [] | Some k \<Rightarrow> benc_str k) @
       (case snd e of None \<Rightarrow> [] | Some y \<Rightarrow> be_text y)) d) @ ''e''"

text \<open>Trees without null pointers, whose strings have lengths a \<open>long long\<close> can hold.\<close>

fun be_full :: "be_node \<Rightarrow> bool" where
  "be_full (BE_STR s) = (case s of None \<Rightarrow> False | Some s \<Rightarrow> length s < 2 ^ 63)"
| "be_full (BE_INT i) = True"
| "be_full (BE_LIST xs) = list_all be_full xs"
| "be_full (BE_DICT d) =
     list_all (\<lambda>e. (case fst e of None \<Rightarrow> False | Some k \<Rightarrow> length k < 2 ^ 63) \<and>
       (case snd e of None \<Rightarrow> False | Some y \<Rightarrow> be_full y)) d"

text \<open>The decoder cannot build an empty dictionary: it faults on its text.\<close>

fun no_empty_dict :: "be_node \<Rightarrow> bool" where
  "no_empty_dict (BE_LIST xs) = list_all no_empty_dict xs"
| "no_empty_dict (BE_DICT d) =
     (d \<noteq> [] \<and> list_all (\<lambda>e. case snd e of None \<Rightarrow> True | Some y \<Rightarrow> no_empty_dict y) d)"
| "no_empty_dict _ = True"

subsection \<open>Numbers and strings round trip\<close>

lemma deref_simps [simp]:
  "deref (c # s, len) = Inr c"
  "deref ([], len) = Inl OutOfBounds"
  by (simp_all add: deref_def)

lemma eat_n_simps [simp]: "eat_n n (s, len) = (drop n s, len - int n)"
  by (simp add: eat_n_def)

lemma strtoll_digits:
  assumes "list_all is_digit ds" and "ds \<noteq> []" and "sg \<in> {[], ''-'', ''+''}"
    and "rest \<noteq> []" and "\<not> is_digit (hd rest)"
  shows "strtoll (sg @ ds @ rest) =
    Inr (word_of_int (max LLONG_MIN (min LLONG_MAX (int_value sg ds))), length (sg @ ds))"
proof -
  note h = hd_digits [OF assms(1,2)]
  have "hd (ds @ rest) = hd ds" using assms(2) by simp
  moreover have "takeWhile is_digit (ds @ rest) = ds" "dropWhile is_digit (ds @ rest) = rest"
    using takeWhile_digits_append [of ds rest] assms by (simp_all add: list_all_iff)
  moreover have "dropWhile is_space (sg @ ds @ rest) = sg @ ds @ rest"
    using assms(2,3) h(4) by (cases ds) (auto simp: is_space_def)
  ultimately show ?thesis
    using assms h by (auto simp: strtoll_def Let_def int_value_def)
qed

lemma clamp_id: "- (2 ^ 63) \<le> v \<Longrightarrow> v < 2 ^ 63 \<Longrightarrow> max LLONG_MIN (min LLONG_MAX v) = v"
  by (simp add: LLONG_MAX_def LLONG_MIN_def)

lemma strtoll_nat_dec:
  assumes "n < 2 ^ 63" and "rest \<noteq> []" and "\<not> is_digit (hd rest)"
  shows "strtoll (nat_dec n @ rest) = Inr (of_nat n, length (nat_dec n))"
  using strtoll_digits [of "nat_dec n" "[]" rest] unpaddedD [OF unpadded_nat_dec [of n]] assms clamp_id [of "int n"]
  by (simp add: int_value_def)

lemma be_decode_str_key:
  assumes "key_valid m k" and "m < 2 ^ 63" and "int (length (key_text k)) \<le> len"
  shows "be_decode_str (key_text k @ rest, len) = Inr (Some (snd k), (rest, len - int (length (key_text k))))"
proof -
  have k: "list_all is_digit (fst k)" "fst k \<noteq> []" "dec_value (fst k) = length (snd k)" "length (snd k) < 2 ^ 63"
    using assms(1,2) by (simp_all add: key_valid_def)
  have "strtoll (fst k @ CHR '':'' # snd k @ rest) = Inr (of_nat (length (snd k)), length (fst k))"
    using strtoll_digits [OF k(1,2), of "[]" "CHR '':'' # snd k @ rest"] k(3,4) clamp_id [of "int (length (snd k))"]
    by (simp add: int_value_def is_digit_def)
  then have "be_decode_int (key_text k @ rest, len) =
      Inr (of_nat (length (snd k)), CHR '':'' # snd k @ rest, len - int (length (fst k)))"
    by (simp add: be_decode_int_def key_text_def)
  then show ?thesis
    using assms(3) k(4) by (simp add: be_decode_str_def sint64_of_nat key_text_def load_n_def Let_def)
qed

lemma be_decode_str_benc:
  assumes "length s < 2 ^ 63" and "int (length (benc_str s)) \<le> len"
  shows "be_decode_str (benc_str s @ rest, len) =
    Inr (Some s, (rest, len - int (length (benc_str s))))"
  using be_decode_str_key [OF key_valid_nat_dec [of s "length s"], of len rest] assms
  by (simp add: key_text_nat_dec)

lemma benc_str_first: "is_digit (hd (benc_str s))" "benc_str s \<noteq> []"
  by (simp_all add: benc_str_def nat_dec_hd_digit)

subsection \<open>Valid texts\<close>

text \<open>The tree of a text: numbers out of range are clamped, dictionaries stay as they are written.\<close>

fun syn_node :: "syn \<Rightarrow> be_node" where
  "syn_node (SInt sg ds) = BE_INT (word_of_int (max LLONG_MIN (min LLONG_MAX (int_value sg ds))))"
| "syn_node (SStr ls s) = BE_STR (Some s)"
| "syn_node (SList ys) = BE_LIST (map syn_node ys)"
| "syn_node (SDict es) = BE_DICT (map (\<lambda>e. (Some (snd (fst e)), Some (syn_node (snd e)))) es)"

fun dicts_filled :: "syn \<Rightarrow> bool" where
  "dicts_filled (SList ys) = list_all dicts_filled ys"
| "dicts_filled (SDict es) = (es \<noteq> [] \<and> list_all (\<lambda>e. dicts_filled (snd e)) es)"
| "dicts_filled _ = True"

lemma word_null_full:
  assumes "\<forall>e \<in> set d. fst e \<noteq> None \<and> snd e \<noteq> None" and "i < length d"
  shows "\<not> word_null d i"
proof -
  have "i div 2 < length d" using assms(2) by simp
  then have "d ! (i div 2) \<in> set d" by simp
  with assms(1) show ?thesis by (simp add: word_null_def)
qed

text \<open>What the decoder does at a valid text, with anything behind it.\<close>

definition syn_reads :: "syn \<Rightarrow> bool" where
  "syn_reads y \<longleftrightarrow> (\<forall>n rest len. 2 * length (syn_text y) \<le> n \<longrightarrow> int (length (syn_text y)) \<le> len \<longrightarrow>
     be_dec n (syn_text y @ rest, len) =
       (if dicts_filled y then Inr (Some (syn_node y), rest, len - int (length (syn_text y))) else Inl NullDeref))"

lemma syn_readsD:
  "\<lbrakk>syn_reads y; 2 * length (syn_text y) \<le> n; int (length (syn_text y)) \<le> len\<rbrakk> \<Longrightarrow>
     be_dec n (syn_text y @ rest, len) =
       (if dicts_filled y then Inr (Some (syn_node y), rest, len - int (length (syn_text y))) else Inl NullDeref)"
  by (simp add: syn_reads_def)

lemma be_dec_list_syn:
  assumes "\<And>y. y \<in> set ys \<Longrightarrow> syn_valid m y \<and> syn_reads y"
    and "2 * length (syns_text ys) + 1 \<le> n" and "int (length (syns_text ys)) \<le> len"
  shows "be_dec_list n (syns_text ys @ CHR ''e'' # rest, len) =
    (if list_all dicts_filled ys
     then Inr (map syn_node ys, CHR ''e'' # rest, len - int (length (syns_text ys))) else Inl NullDeref)"
  using assms
proof (induction ys arbitrary: n len)
  case Nil
  then show ?case by (cases n) simp_all
next
  case (Cons y ys)
  obtain k where n: "n = Suc k" using Cons.prems(2) by (cases n) auto
  have y: "syn_valid m y" "syn_reads y" using Cons.prems(1) by simp_all
  obtain c u where c: "syn_text y = c # u" "c \<noteq> CHR ''e''" using syn_text_first [OF y(1)] by blast
  let ?r = "syns_text ys @ CHR ''e'' # rest"
  have "be_dec k (syn_text y @ ?r, len) =
      (if dicts_filled y then Inr (Some (syn_node y), ?r, len - int (length (syn_text y))) else Inl NullDeref)"
    using Cons.prems(2,3) by (intro syn_readsD [OF y(2)]) (auto simp: n)
  moreover have "be_dec_list k (?r, len - int (length (syn_text y))) =
    (if list_all dicts_filled ys
     then Inr (map syn_node ys, CHR ''e'' # rest, len - int (length (syn_text y)) - int (length (syns_text ys)))
     else Inl NullDeref)"
    by (rule Cons.IH) (use Cons.prems c in \<open>auto simp: n\<close>)
  ultimately show ?case using c by (simp add: n)
qed

lemma be_dec_dict_syn:
  assumes "\<And>k y. (k, y) \<in> set es \<Longrightarrow> key_valid m k \<and> syn_valid m y \<and> syn_reads y" and "m < 2 ^ 63"
    and "\<forall>e \<in> set d0. fst e \<noteq> None \<and> snd e \<noteq> None"
    and "2 * length (entries_text es) + 1 \<le> n" and "int (length (entries_text es)) \<le> len"
  shows "be_dec_dict n d0 (entries_text es @ CHR ''e'' # rest, len) =
    (if list_all (\<lambda>e. dicts_filled (snd e)) es
     then Inr (d0 @ map (\<lambda>e. (Some (snd (fst e)), Some (syn_node (snd e)))) es, d0 \<noteq> [] \<or> es \<noteq> [],
       CHR ''e'' # rest, len - int (length (entries_text es)))
     else Inl NullDeref)"
  using assms
proof (induction es arbitrary: d0 n len)
  case Nil
  then show ?case by (cases n) simp_all
next
  case (Cons e es)
  obtain k y where e: "e = (k, y)" by (cases e)
  obtain j where n: "n = Suc j" using Cons.prems(4) by (cases n) auto
  have k: "key_valid m k" "syn_reads y" using Cons.prems(1) [of k y] by (simp_all add: e)
  obtain c u where c: "key_text k = c # u" "is_digit c" using key_text_first [OF k(1)] by blast
  let ?r = "entries_text es @ CHR ''e'' # rest" and ?d = "d0 @ [(Some (snd k), Some (syn_node y))]"
  let ?len = "len - int (length (key_text k))"
  have "be_decode_str (key_text k @ syn_text y @ ?r, len) = Inr (Some (snd k), syn_text y @ ?r, ?len)"
    by (rule be_decode_str_key [OF k(1) Cons.prems(2)]) (use Cons.prems(5) in \<open>simp add: e\<close>)
  moreover have "be_dec j (syn_text y @ ?r, ?len) =
      (if dicts_filled y then Inr (Some (syn_node y), ?r, ?len - int (length (syn_text y))) else Inl NullDeref)"
    using Cons.prems(4,5) by (intro syn_readsD [OF k(2)]) (auto simp: n e)
  moreover have "\<not> word_null ?d (length d0)"
    by (rule word_null_full) (use Cons.prems(3) in auto)
  moreover have "be_dec_dict j ?d (?r, ?len - int (length (syn_text y))) =
    (if list_all (\<lambda>e. dicts_filled (snd e)) es
     then Inr (?d @ map (\<lambda>e. (Some (snd (fst e)), Some (syn_node (snd e)))) es, ?d \<noteq> [] \<or> es \<noteq> [],
       CHR ''e'' # rest, ?len - int (length (syn_text y)) - int (length (entries_text es)))
     else Inl NullDeref)"
    by (rule Cons.IH) (use Cons.prems c in \<open>auto simp: n e\<close>)
  ultimately show ?case using c digit_not_special [of c] by (simp add: n e)
qed

lemma be_dec_syn: "syn_valid m y \<Longrightarrow> m < 2 ^ 63 \<Longrightarrow> syn_reads y"
proof (induction y rule: syn_induct)
  case (SInt sg ds)
  then have ds: "list_all is_digit ds" "ds \<noteq> []" "sg \<in> {[], ''-'', ''+''}" using unpaddedD [of ds] by auto
  show ?case
    unfolding syn_reads_def
  proof (intro allI impI)
    fix n rest and len :: int
    assume n: "2 * length (syn_text (SInt sg ds)) \<le> n" and len: "int (length (syn_text (SInt sg ds))) \<le> len"
    obtain j where "n = Suc j" using n by (cases n) auto
    with len strtoll_digits [OF ds, of "CHR ''e'' # rest"]
    show "be_dec n (syn_text (SInt sg ds) @ rest, len) =
      (if dicts_filled (SInt sg ds)
       then Inr (Some (syn_node (SInt sg ds)), rest, len - int (length (syn_text (SInt sg ds)))) else Inl NullDeref)"
      by (simp add: be_decode_int_def is_digit_def)
  qed
next
  case (SStr ls s)
  then have k: "key_valid m (ls, s)" by simp
  obtain c u where c: "key_text (ls, s) = c # u" "is_digit c" using key_text_first [OF k] by blast
  show ?case
    unfolding syn_reads_def
  proof (intro allI impI)
    fix n rest and len :: int
    assume n: "2 * length (syn_text (SStr ls s)) \<le> n" and len: "int (length (syn_text (SStr ls s))) \<le> len"
    obtain j where "n = Suc j" using n c by (cases n) auto
    with len be_decode_str_key [OF k SStr(2), of len rest] c digit_not_special [of c]
    show "be_dec n (syn_text (SStr ls s) @ rest, len) =
      (if dicts_filled (SStr ls s)
       then Inr (Some (syn_node (SStr ls s)), rest, len - int (length (syn_text (SStr ls s)))) else Inl NullDeref)"
      by simp
  qed
next
  case (SList ys)
  have ys: "syn_valid m y \<and> syn_reads y" if "y \<in> set ys" for y
    using SList that by (simp add: list_all_iff)
  show ?case
    unfolding syn_reads_def
  proof (intro allI impI)
    fix n rest and len :: int
    assume n: "2 * length (syn_text (SList ys)) \<le> n" and len: "int (length (syn_text (SList ys))) \<le> len"
    obtain j where "n = Suc j" using n by (cases n) auto
    with be_dec_list_syn [OF ys, of ys j "len - 1" rest] n len
    show "be_dec n (syn_text (SList ys) @ rest, len) =
      (if dicts_filled (SList ys)
       then Inr (Some (syn_node (SList ys)), rest, len - int (length (syn_text (SList ys)))) else Inl NullDeref)"
      by simp
  qed
next
  case (SDict es)
  have es: "key_valid m k \<and> syn_valid m y \<and> syn_reads y" if "(k, y) \<in> set es" for k y
    using SDict that by (fastforce simp: list_all_iff)
  show ?case
    unfolding syn_reads_def
  proof (intro allI impI)
    fix n rest and len :: int
    assume n: "2 * length (syn_text (SDict es)) \<le> n" and len: "int (length (syn_text (SDict es))) \<le> len"
    obtain j where "n = Suc j" using n by (cases n) auto
    with be_dec_dict_syn [OF es, of es "[]" j "len - 1" rest] n len SDict.prems(2)
    show "be_dec n (syn_text (SDict es) @ rest, len) =
      (if dicts_filled (SDict es)
       then Inr (Some (syn_node (SDict es)), rest, len - int (length (syn_text (SDict es)))) else Inl NullDeref)"
      by auto
  qed
qed

subsection \<open>Trees round trip\<close>

text \<open>The text of a tree is the canonical text of its strings and numbers, in the order of the tree.\<close>

fun node_syn :: "be_node \<Rightarrow> syn" where
  "node_syn (BE_STR s) = (case s of None \<Rightarrow> SList [] | Some t \<Rightarrow> SStr (nat_dec (length t)) t)"
| "node_syn (BE_INT i) = SInt (fst (int_syn (sint i))) (snd (int_syn (sint i)))"
| "node_syn (BE_LIST xs) = SList (map node_syn xs)"
| "node_syn (BE_DICT d) = SDict (map (\<lambda>e.
     (case fst e of None \<Rightarrow> ([], []) | Some k \<Rightarrow> (nat_dec (length k), k),
      case snd e of None \<Rightarrow> SList [] | Some y \<Rightarrow> node_syn y)) d)"

definition node_syn_ok :: "be_node \<Rightarrow> bool" where
  "node_syn_ok x \<longleftrightarrow> syn_text (node_syn x) = be_text x \<and> syn_valid (2 ^ 63 - 1) (node_syn x) \<and>
     syn_node (node_syn x) = x \<and> dicts_filled (node_syn x) = no_empty_dict x"

lemma int_value_syn: "int_value (fst (int_syn i)) (snd (int_syn i)) = i"
  by (simp add: int_value_def int_syn_def)

lemma node_syn_full: "be_full x \<Longrightarrow> node_syn_ok x"
proof (induction x rule: be_node_induct)
  case (BE_STR s)
  then obtain t where "s = Some t" "length t < 2 ^ 63" by (auto split: option.splits)
  then show ?case
    using key_valid_nat_dec [of t "2 ^ 63 - 1"] by (simp add: node_syn_ok_def key_text_nat_dec)
next
  case (BE_INT i)
  have i: "- (2 ^ 63) \<le> sint i" "sint i < 2 ^ 63" using sint_greater_eq [of i] sint_lt [of i] by simp_all
  from int_syn_canonical [OF i] clamp_id [OF i] show ?case
    by (auto simp: node_syn_ok_def benc_int_def int_value_syn simp flip: append_assoc)
next
  case (BE_LIST xs)
  then have "node_syn_ok x" if "x \<in> set xs" for x using that by (simp add: list_all_iff)
  then show ?case
    by (auto simp: node_syn_ok_def list_all_iff comp_def intro!: arg_cong [where f = concat] map_idI)
next
  case (BE_DICT d)
  have "\<exists>k y. e = (Some k, Some y) \<and> key_valid (2 ^ 63 - 1) (nat_dec (length k), k) \<and> node_syn_ok y"
    if "e \<in> set d" for e
    using BE_DICT that key_valid_nat_dec [of _ "2 ^ 63 - 1"]
    by (cases e; cases "fst e"; cases "snd e") (fastforce simp: list_all_iff)+
  then show ?case
    by (fastforce simp: node_syn_ok_def list_all_iff comp_def key_text_nat_dec
        intro!: arg_cong [where f = concat] map_idI)
qed

lemma be_text_hd: "be_full x \<Longrightarrow> be_text x \<noteq> [] \<and> hd (be_text x) \<noteq> CHR ''e''"
  using node_syn_full [of x] syn_text_first [of "2 ^ 63 - 1" "node_syn x"] by (auto simp: node_syn_ok_def)

definition reads_back :: "be_node \<Rightarrow> bool" where
  "reads_back x \<longleftrightarrow> (\<forall>n rest len. 2 * length (be_text x) \<le> n \<longrightarrow> int (length (be_text x)) \<le> len \<longrightarrow>
     be_dec n (be_text x @ rest, len) = Inr (Some x, rest, len - int (length (be_text x))))"

lemma reads_backD:
  "\<lbrakk>reads_back x; 2 * length (be_text x) \<le> n; int (length (be_text x)) \<le> len\<rbrakk> \<Longrightarrow>
     be_dec n (be_text x @ rest, len) = Inr (Some x, rest, len - int (length (be_text x)))"
  by (simp add: reads_back_def)

lemma be_dec_text: "be_full x \<Longrightarrow> no_empty_dict x \<Longrightarrow> reads_back x"
  using node_syn_full [of x] be_dec_syn [of "2 ^ 63 - 1" "node_syn x"]
  by (simp add: node_syn_ok_def reads_back_def syn_reads_def del: be_dec.simps)

text \<open>The decoder on a whole buffer, as the reading half of a codec.\<close>

definition read_node :: "string \<Rightarrow> fault option + be_node \<times> string" where
  "read_node s =
     (case be_dec (4 * length s + 1) (s, int (length s)) of
        Inl f \<Rightarrow> Inl (Some f)
      | Inr (None, cur) \<Rightarrow> Inl None
      | Inr (Some x, cur) \<Rightarrow> Inr (x, fst cur))"

interpretation be_codec: prefix_codec be_text read_node "\<lambda>x. be_full x \<and> no_empty_dict x"
proof (unfold_locales, elim conjE)
  fix x rest
  assume "be_full x" and "no_empty_dict x"
  then have "reads_back x" by (rule be_dec_text)
  then have "be_dec (4 * length (be_text x @ rest) + 1) (be_text x @ rest, int (length (be_text x @ rest))) =
      Inr (Some x, rest, int (length (be_text x @ rest)) - int (length (be_text x)))"
    by (rule reads_backD) (simp_all del: be_dec.simps)
  then show "read_node (be_text x @ rest) = Inr (x, rest)"
    by (simp only: read_node_def) simp
qed


subsection \<open>The decoder always returns\<close>

text \<open>Every step leaves the cursor where it was or moves it forward.\<close>

definition moved :: "cursor \<Rightarrow> cursor \<Rightarrow> bool" where
  "moved cur cur' \<longleftrightarrow> cur' = cur \<or> length (fst cur') < length (fst cur)"

lemma moved_refl [simp]: "moved cur cur"
  by (simp add: moved_def)

lemma moved_trans: "moved a b \<Longrightarrow> moved b c \<Longrightarrow> moved a c"
  by (auto simp: moved_def)

lemma moved_length: "moved a b \<Longrightarrow> length (fst b) \<le> length (fst a)"
  by (auto simp: moved_def)

lemma moved_eat: "deref cur = Inr c \<Longrightarrow> length (fst (eat_n (Suc n) cur)) < length (fst cur)"
  by (auto simp: deref_def eat_n_def split: list.splits)

lemma moved_eat_n: "moved (s, len) (drop n s, len - int n) \<or> s = []"
  by (cases "n = 0") (auto simp: moved_def)

lemma strtoll_bound:
  assumes "strtoll s = Inr (v, n)"
  shows "n < length s"
proof -
  define t where "t = dropWhile is_space s"
  define body where "body = (if t \<noteq> [] \<and> (hd t = CHR ''-'' \<or> hd t = CHR ''+'') then tl t else t)"
  have "length t \<le> length s" unfolding t_def by (rule length_dropWhile_le)
  moreover have "length body \<le> length t" by (simp add: body_def)
  moreover have "length (dropWhile is_digit body) \<le> length body" by (rule length_dropWhile_le)
  moreover from assms have "dropWhile is_digit body \<noteq> []"
    and "n = 0 \<or> n = length s - length (dropWhile is_digit body)"
    by (auto simp: strtoll_def Let_def body_def t_def split: if_splits)
  ultimately show ?thesis
    by (metis diff_less length_greater_0_conv order.strict_trans2 order.trans)
qed

lemma be_decode_int_moved:
  assumes "be_decode_int cur = Inr (v, cur')"
  shows "moved cur cur'"
proof -
  from assms obtain n where n: "strtoll (fst cur) = Inr (v, n)" "cur' = eat_n n cur"
    by (auto simp: be_decode_int_def elim!: and_then_InrE)
  with strtoll_bound [OF n(1)] show ?thesis
    by (cases cur; cases n) (auto simp: moved_def)
qed

lemma be_decode_str_moved:
  assumes "be_decode_str cur = Inr (k, cur')"
  shows "moved cur cur' \<and> (k \<noteq> None \<longrightarrow> length (fst cur') < length (fst cur))"
proof -
  from assms obtain sllen mid where i: "be_decode_int cur = Inr (sllen, mid)"
    and r: "(if sint sllen < 0 then Inr (None, mid)
       else if snd mid - 1 < sint sllen then Inr (None, mid)
       else let len = nat (sint sllen) in
         and_then (deref mid) (\<lambda>c.
           if c = CHR '':'' then
             and_then (load_n (fst mid) 1 len) (\<lambda>s. Inr (Some s, eat_n (len + 1) mid))
           else Inr (None, mid))) = Inr (k, cur')"
    unfolding be_decode_str_def by (auto elim!: and_then_InrE)
  have m: "moved cur mid" using i by (rule be_decode_int_moved)
  show ?thesis
  proof (cases "sint sllen < 0 \<or> snd mid - 1 < sint sllen")
    case True
    with r m show ?thesis by (auto split: if_splits)
  next
    case False
    with r obtain c where c: "deref mid = Inr c" and
      "(if c = CHR '':'' then
         and_then (load_n (fst mid) 1 (nat (sint sllen)))
           (\<lambda>s. Inr (Some s, eat_n (nat (sint sllen) + 1) mid))
       else Inr (None, mid)) = Inr (k, cur')"
      by (auto simp: Let_def elim!: and_then_InrE)
    then have "k = None \<and> cur' = mid \<or> cur' = eat_n (Suc (nat (sint sllen))) mid"
      by (auto split: if_splits elim!: and_then_InrE)
    with m moved_eat [OF c, of "nat (sint sllen)"] moved_length [OF m] show ?thesis
      by (auto simp: moved_def)
  qed
qed

lemma strtoll_digit:
  assumes "strtoll (c # s) = Inr (v, n)" and "is_digit c"
  shows "0 < n"
proof -
  have "length (dropWhile is_digit s) < Suc (length s)"
    using length_dropWhile_le [of is_digit s] by simp
  moreover have "n = Suc (length s) - length (dropWhile is_digit s)"
    using assms digit_not_special [OF assms(2)]
    by (auto simp: strtoll_def Let_def split: if_splits)
  ultimately show ?thesis by simp
qed

lemma be_decode_str_digit:
  assumes "be_decode_str cur = Inr (k, cur')" and "deref cur = Inr c" and "is_digit c"
  shows "length (fst cur') < length (fst cur)"
proof -
  obtain s len where cur: "cur = (c # s, len)"
    using assms(2) by (cases cur) (auto simp: deref_def split: list.splits)
  have shorter: "length (fst mid) < length (fst cur)" if "be_decode_int cur = Inr (v, mid)" for v mid
  proof -
    from that obtain n where n: "strtoll (c # s) = Inr (v, n)" "mid = eat_n n cur"
      by (auto simp: be_decode_int_def cur elim!: and_then_InrE)
    from strtoll_digit [OF n(1) assms(3)] show ?thesis by (simp add: n(2) cur)
  qed
  have "k \<noteq> None \<Longrightarrow> ?thesis" using be_decode_str_moved [OF assms(1)] by blast
  moreover have "k = None \<Longrightarrow> ?thesis"
    using assms(1) shorter
    by (fastforce simp: be_decode_str_def Let_def split: if_splits elim!: and_then_InrE)
  ultimately show ?thesis by blast
qed

text \<open>
  The three functions move forward, a node consumes at least one byte, and a null result that
  consumed nothing is the same whatever the fuel.
\<close>

lemma be_dec_moved:
  "be_dec n cur = Inr (p, cur') \<Longrightarrow>
     moved cur cur' \<and> (p \<noteq> None \<longrightarrow> length (fst cur') < length (fst cur)) \<and>
     (cur' = cur \<longrightarrow> be_dec (Suc m) cur = Inr (None, cur))"
  "be_dec_list n cur = Inr (xs, cur') \<Longrightarrow> moved cur cur'"
  "be_dec_dict n d cur = Inr (d', alloc, cur') \<Longrightarrow> moved cur cur'"
proof (induction n arbitrary: p xs d d' alloc cur cur')
  case (Suc n)
  {
    case 1
    show ?case
    proof (cases "snd cur = 0")
      case True
      with 1 show ?thesis by simp
    next
      case False
      with 1 obtain c where c: "deref cur = Inr c" by (auto elim!: and_then_InrE)
      have e: "length (fst (eat_n 1 cur)) < length (fst cur)"
        using moved_eat [OF c, of 0] by simp
      have eat_le: "length (fst (eat_n 1 cur)) \<le> length (fst cur)" for cur
        by (simp add: eat_n_def)
      consider "c = CHR ''l''" | "c = CHR ''d''" | "c = CHR ''i''" | "is_digit c"
        | "c \<noteq> CHR ''l''" "c \<noteq> CHR ''d''" "c \<noteq> CHR ''i''" "\<not> is_digit c" by blast
      then show ?thesis
      proof cases
        case 1
        with \<open>be_dec (Suc n) cur = Inr (p, cur')\<close> False c obtain xs mid
          where "be_dec_list n (eat_n 1 cur) = Inr (xs, mid)" "cur' = eat_n 1 mid"
          by (auto elim!: and_then_InrE)
        with Suc.IH(2) [of "eat_n 1 cur" xs mid] e eat_le [of mid] show ?thesis
          by (auto simp: moved_def dest!: moved_length)
      next
        case 2
        with \<open>be_dec (Suc n) cur = Inr (p, cur')\<close> False c obtain d al mid
          where "be_dec_dict n [] (eat_n 1 cur) = Inr (d, al, mid)" "cur' = eat_n 1 mid"
          by (auto elim!: and_then_InrE split: if_splits)
        with Suc.IH(3) [of "[]" "eat_n 1 cur" d al mid] e eat_le [of mid] show ?thesis
          by (auto simp: moved_def dest!: moved_length)
      next
        case 3
        with \<open>be_dec (Suc n) cur = Inr (p, cur')\<close> False c obtain v mid
          where "be_decode_int (eat_n 1 cur) = Inr (v, mid)" "cur' = mid \<or> cur' = eat_n 1 mid"
          by (auto elim!: and_then_InrE split: if_splits)
        with be_decode_int_moved [of "eat_n 1 cur" v mid] e eat_le [of mid] show ?thesis
          by (auto simp: moved_def dest!: moved_length)
      next
        case 4
        with \<open>be_dec (Suc n) cur = Inr (p, cur')\<close> False c digit_not_special [of c] obtain s
          where "be_decode_str cur = Inr (s, cur')" "p = Some (BE_STR s)"
          by (auto elim!: and_then_InrE)
        with be_decode_str_digit [of cur s cur' c] c 4 show ?thesis by (auto simp: moved_def)
      next
        case 5
        with \<open>be_dec (Suc n) cur = Inr (p, cur')\<close> False c show ?thesis by simp
      qed
    qed
  next
    case 2
    then obtain c where c: "deref cur = Inr c" by (auto elim!: and_then_InrE)
    show ?case
    proof (cases "c = CHR ''e''")
      case True
      with 2 c show ?thesis by simp
    next
      case False
      with 2 c obtain q mid where q: "be_dec n cur = Inr (q, mid)"
        and r: "(case q of None \<Rightarrow> Inr ([], mid)
          | Some x \<Rightarrow> and_then (be_dec_list n mid) (\<lambda>(xs, cur). Inr (x # xs, cur))) = Inr (xs, cur')"
        by (auto elim!: and_then_InrE)
      from q have m: "moved cur mid" using Suc.IH(1) by blast
      show ?thesis
      proof (cases q)
        case None
        with r m show ?thesis by simp
      next
        case (Some x)
        with r obtain ys where "be_dec_list n mid = Inr (ys, cur')" by (auto elim!: and_then_InrE)
        with Suc.IH(2) m show ?thesis by (blast intro: moved_trans)
      qed
    qed
  next
    case 3
    then obtain c where c: "deref cur = Inr c" by (auto elim!: and_then_InrE)
    show ?case
    proof (cases "c = CHR ''e''")
      case True
      with 3 c show ?thesis by simp
    next
      case False
      with 3 c obtain k mid1 q mid2 where k: "be_decode_str cur = Inr (k, mid1)"
        and q: "be_dec n mid1 = Inr (q, mid2)"
        and r: "(if word_null (d @ [(k, q)]) (length d) then Inr (d, True, mid2)
          else be_dec_dict n (d @ [(k, q)]) mid2) = Inr (d', alloc, cur')"
        by (auto elim!: and_then_InrE)
      have "moved cur mid1" using be_decode_str_moved [OF k] by simp
      moreover have "moved mid1 mid2" using q Suc.IH(1) by blast
      ultimately have m: "moved cur mid2" by (rule moved_trans)
      show ?thesis
      proof (cases "word_null (d @ [(k, q)]) (length d)")
        case True
        with r m show ?thesis by simp
      next
        case False
        with r have "be_dec_dict n (d @ [(k, q)]) mid2 = Inr (d', alloc, cur')" by simp
        with Suc.IH(3) m show ?thesis by (blast intro: moved_trans)
      qed
    qed
  }
qed simp_all


lemma fuelled_leaves [simp]:
  "fuelled (deref cur)"
  "fuelled (load_n m i n)"
  "fuelled (be_decode_int cur)"
  "fuelled (be_decode_str cur)"
proof -
  show d: "fuelled (deref cur)" for cur by (simp add: deref_def split: list.split)
  show "fuelled (load_n m i n)" by (simp add: load_n_def)
  show i: "fuelled (be_decode_int cur)" for cur
    by (auto simp: be_decode_int_def strtoll_def Let_def)
  show "fuelled (be_decode_str cur)"
    by (auto simp: be_decode_str_def d i load_n_def Let_def)
qed

text \<open>
  A dictionary loop that has stopped moving at slot \<open>j\<close> fills null slots until its test looks
  at the key of slot \<open>j\<close>, which it does at slot \<open>2 * j\<close>.
\<close>

lemma be_dec_dict_stuck:
  assumes "deref cur = Inr c" and "be_decode_str cur = Inr (None, cur)"
    and "\<And>m. be_dec (Suc m) cur = Inr (None, cur)"
    and "j \<le> length d" and "length d \<le> 2 * j" and "j < length d \<Longrightarrow> fst (d ! j) = None"
    and "2 * j + 2 - length d \<le> n"
  shows "fuelled (be_dec_dict n d cur)"
  using assms(4-)
proof (induction n arbitrary: d)
  case 0
  then show ?case by simp
next
  case (Suc n)
  obtain m where n: "n = Suc m" using Suc.prems by (cases n) auto
  have slot: "fst ((d @ [(None, None)]) ! j) = None"
    using Suc.prems(1,3) by (cases "j < length d") (auto simp: nth_append)
  show ?case
  proof (cases "c = CHR ''e'' \<or> word_null (d @ [(None, None)]) (length d)")
    case True
    then show ?thesis using assms(1,2) assms(3) [of m] by (auto simp: n simp del: be_dec.simps)
  next
    case False
    moreover have "length d \<noteq> 2 * j"
      using False slot by (auto simp: word_null_def)
    then have "fuelled (be_dec_dict n (d @ [(None, None)]) cur)"
      using Suc.prems slot by (intro Suc.IH) auto
    ultimately show ?thesis
      using assms(1,2) assms(3) [of m] by (simp add: n del: be_dec.simps)
  qed
qed

lemma be_dec_returns:
  "4 * length (fst cur) + 1 \<le> n \<Longrightarrow> fuelled (be_dec n cur)"
  "4 * length (fst cur) + 2 \<le> n \<Longrightarrow> fuelled (be_dec_list n cur)"
  "4 * length (fst cur) + 3 + length d \<le> n \<Longrightarrow> fuelled (be_dec_dict n d cur)"
proof (induction n arbitrary: cur d)
  case (Suc n)
  {
    case 1
    show ?case
    proof (cases "snd cur = 0 \<or> fst cur = []")
      case True
      then show ?thesis by (auto simp: deref_def)
    next
      case False
      then obtain c s where s: "fst cur = c # s" by (cases "fst cur") auto
      have d: "deref cur = Inr c" by (simp add: deref_def s)
      have "fuelled (be_dec_list n (eat_n 1 cur))"
        "fuelled (be_dec_dict n [] (eat_n 1 cur))"
        using Suc.IH(2) [of "eat_n 1 cur"] Suc.IH(3) [of "eat_n 1 cur" "[]"] 1
        by (simp_all add: eat_n_def s)
      then show ?thesis
        by (auto simp: d)
    qed
  next
    case 2
    show ?case
    proof (cases "be_dec n cur")
      case (Inl f)
      moreover have "fuelled (be_dec n cur)" using 2 by (intro Suc.IH(1)) simp
      ultimately show ?thesis by (auto simp: deref_def split: list.splits)
    next
      case (Inr r)
      obtain q mid where r: "r = (q, mid)" by (cases r)
      show ?thesis
      proof (cases q)
        case None
        then show ?thesis using Inr r by (auto simp: deref_def split: list.splits)
      next
        case (Some x)
        then have "length (fst mid) < length (fst cur)"
          using be_dec_moved(1) [of n cur q mid] Inr r by simp
        then have "fuelled (be_dec_list n mid)" using 2 by (intro Suc.IH(2)) simp
        then show ?thesis
          using Inr r Some by (auto simp: deref_def and_then_eq_Inl split: list.splits)
      qed
    qed
  next
    case 3
    show ?case
    proof (cases "deref cur")
      case (Inl f)
      then show ?thesis by (auto simp: deref_def split: list.splits)
    next
      case (Inr c)
      show ?thesis
      proof (cases "be_decode_str cur")
        case (Inl f)
        then show ?thesis
          using fuelled_leaves(4) [of cur] \<open>deref cur = Inr c\<close> by (simp add: fuelled_def)
      next
        case k: (Inr r)
        obtain k' mid1 where r: "r = (k', mid1)" by (cases r)
        have m1: "moved cur mid1" "k' \<noteq> None \<Longrightarrow> length (fst mid1) < length (fst cur)"
          using be_decode_str_moved [of cur k' mid1] k r by auto
        have "fuelled (be_dec n mid1)"
          using 3 moved_length [OF m1(1)] by (intro Suc.IH(1)) simp
        then show ?thesis
        proof (cases "be_dec n mid1")
          case q: (Inr r')
          obtain p mid2 where r': "r' = (p, mid2)" by (cases r')
          have m2: "moved mid1 mid2"
            "p \<noteq> None \<Longrightarrow> length (fst mid2) < length (fst mid1)"
            "\<And>m. mid2 = mid1 \<Longrightarrow> be_dec (Suc m) mid1 = Inr (None, mid1)"
            using be_dec_moved(1) [of n mid1 p mid2] q r' by auto
          show ?thesis
          proof (cases "mid2 = cur")
            case True
            then have "mid1 = cur" using m1(1) m2(1) by (auto simp: moved_def)
            moreover have "k' = None" using m1(2) calculation by (cases k') auto
            ultimately have "fuelled (be_dec_dict (Suc n) d cur)"
              using True m2(3) k r Inr 3
              by (intro be_dec_dict_stuck [where j = "length d"]) (auto simp del: be_dec.simps)
            then show ?thesis .
          next
            case False
            then have "length (fst mid2) < length (fst cur)"
              using moved_trans [OF m1(1) m2(1)] by (auto simp: moved_def)
            then have "fuelled (be_dec_dict n (d @ [(k', p)]) mid2)"
              using 3 by (intro Suc.IH(3)) simp
            then show ?thesis using Inr k r q r' by simp
          qed
        qed (use Inr k r in auto)
      qed
    qed
  }
qed simp_all

lemma be_decoden_fuel: "fuelled (be_decoden data len)"
  using be_dec_returns(1) [of "(data, len)"] by (auto simp: be_decoden_def simp del: be_dec.simps)

text \<open>More fuel never changes a result.\<close>

lemma be_dec_fuel_le:
  shows "n \<le> m \<Longrightarrow> fuel_le OutOfFuel (be_dec n cur) (be_dec m cur)"
    and "n \<le> m \<Longrightarrow> fuel_le OutOfFuel (be_dec_list n cur) (be_dec_list m cur)"
    and "n \<le> m \<Longrightarrow> fuel_le OutOfFuel (be_dec_dict n d cur) (be_dec_dict m d cur)"
proof (induction n arbitrary: cur d m)
  case (Suc n)
  {
    case 1
    then obtain k where "m = Suc k" "n \<le> k" by (cases m) auto
    then show ?case by (simp only: be_dec.simps) (intro fuel_le_intros Suc.IH)
  next
    case 2
    then obtain k where "m = Suc k" "n \<le> k" by (cases m) auto
    then show ?case by (simp only: be_dec_list.simps) (intro fuel_le_intros Suc.IH)
  next
    case 3
    then obtain k where "m = Suc k" "n \<le> k" by (cases m) auto
    then show ?case by (simp only: be_dec_dict.simps) (intro fuel_le_intros Suc.IH)
  }
qed simp_all

lemma be_decoden_bound:
  "4 * length data + 1 \<le> n \<Longrightarrow> be_decoden data len = and_then (be_dec n (data, len)) (\<lambda>(p, cur). Inr p)"
  using be_dec_fuel_le(1) [of "4 * length data + 1" n "(data, len)"] be_dec_returns(1) [of "(data, len)"]
  by (auto simp: be_decoden_def fuel_le_def fuelled_def simp del: be_dec.simps)

end
