(* ===== verification/BencodeOut.thy ===== *)
theory BencodeOut
  imports BencodeC
begin

text \<open>
  The encoder, the destructor and the properties of the C bencode library. \<open>be_encode\<close> writes
  into a buffer \<open>m\<close> at offset \<open>off\<close> and believes the \<open>cap\<close> bytes from there to be its own; a null
  \<open>outBuf\<close> (\<open>None\<close>) makes it compute the size it needs. The loops over a list and over a
  dictionary carry the pointer, the remaining capacity and the \<open>int\<close> they sum sizes in.
\<close>

subsection \<open>Encoder\<close>

definition be_encode_str ::
  "string option \<Rightarrow> string option \<Rightarrow> nat \<Rightarrow> nat \<Rightarrow> (int \<times> string option) res" where
  "be_encode_str str out off cap =
     (case str of
        None \<Rightarrow> Inl NullDeref
      | Some s \<Rightarrow>
          let hdr = nat_dec (length s) @ '':''; total = length hdr + length s in
          (case out of
             None \<Rightarrow> Inr (int total, None)
           | Some m \<Rightarrow>
               if cap < total then Inr (- 1, Some m)
               else and_then (store_n m off hdr) (\<lambda>m.
                    and_then (store_n m (off + length hdr) s) (\<lambda>m. Inr (int total, Some m)))))"

definition store_opt :: "string option \<Rightarrow> nat \<Rightarrow> char \<Rightarrow> string option res" where
  "store_opt out off c =
     (case out of None \<Rightarrow> Inr None | Some m \<Rightarrow> and_then (store m off c) (\<lambda>m. Inr (Some m)))"

text \<open>
  The end of both loops writes the closing \<open>e\<close> and counts it. \<open>CHECK_AND_UPDATE\<close> is the
  test of \<open>r\<close> with the update of pointer, capacity and size; they move only with a buffer.
\<close>

definition be_encode_end :: "string option \<Rightarrow> nat \<Rightarrow> nat \<Rightarrow> int \<Rightarrow> (int \<times> string option) res" where
  "be_encode_end out off cap sz =
     (if out \<noteq> None \<and> cap = 0 then Inr (- 1, out)
      else and_then (store_opt out off CHR ''e'') (\<lambda>out.
        if sz = 2 ^ 31 - 1 then Inl SignedOverflow else Inr (sz + 1, out)))"

function (sequential) be_encode :: "be_node \<Rightarrow> string option \<Rightarrow> nat \<Rightarrow> nat \<Rightarrow> (int \<times> string option) res"
  and be_encode_list ::
    "be_node list \<Rightarrow> string option \<Rightarrow> nat \<Rightarrow> nat \<Rightarrow> int \<Rightarrow> (int \<times> string option) res"
  and be_encode_dict ::
    "be_slot list \<Rightarrow> string option \<Rightarrow> nat \<Rightarrow> nat \<Rightarrow> int \<Rightarrow> (int \<times> string option) res" where
  "be_encode (BE_INT i) out off cap =
     (if out \<noteq> None \<and> cap = 0 then Inr (- 1, out)
      else let tmp = ''i'' @ int_dec (sint i) @ ''e'' in
        case out of
          None \<Rightarrow> Inr (int (length tmp), None)
        | Some m \<Rightarrow>
            if cap < length tmp then Inr (- 1, Some m)
            else and_then (store_n m off tmp) (\<lambda>m. Inr (int (length tmp), Some m)))"
| "be_encode (BE_STR s) out off cap =
     (if out \<noteq> None \<and> cap = 0 then Inr (- 1, out)
      else and_then (be_encode_str s out off cap) (\<lambda>(r, out).
        if to_int32 r < 0 then Inr (- 1, out) else Inr (to_int32 r, out)))"
| "be_encode (BE_LIST xs) out off cap =
     (if out \<noteq> None \<and> cap = 0 then Inr (- 1, out)
      else and_then (store_opt out off CHR ''l'') (\<lambda>out.
        be_encode_list xs out (off + 1) (cap - 1) 1))"
| "be_encode (BE_DICT d) out off cap =
     (if out \<noteq> None \<and> cap = 0 then Inr (- 1, out)
      else and_then (store_opt out off CHR ''d'') (\<lambda>out.
        be_encode_dict d out (off + 1) (cap - 1) 1))"
| "be_encode_list [] out off cap sz = be_encode_end out off cap sz"
| "be_encode_list (x # xs) out off cap sz =
     and_then (be_encode x out off cap) (\<lambda>(r, out).
       if r < 0 then Inr (- 1, out)
       else be_encode_list xs out (off + nat r) (size_t_minus cap (nat r)) (to_int32 (sz + r)))"
| "be_encode_dict [] out off cap sz = be_encode_end out off cap sz"
| "be_encode_dict ((k, p) # d) out off cap sz =
     (case p of
        None \<Rightarrow> be_encode_end out off cap sz
      | Some x \<Rightarrow>
          and_then (be_encode_str k out off cap) (\<lambda>(r, out).
            if r < 0 then Inr (- 1, out)
            else let off = off + nat r; cap = size_t_minus cap (nat r); sz = to_int32 (sz + r) in
              and_then (be_encode x out off cap) (\<lambda>(r, out).
                if r < 0 then Inr (- 1, out)
                else be_encode_dict d out (off + nat r) (size_t_minus cap (nat r)) (to_int32 (sz + r)))))"

  by pat_completeness auto

termination
  by (relation "measure (case_sum (\<lambda>(x, _). size x) (case_sum (\<lambda>(xs, _). size_list size xs)
        (\<lambda>(d, _). size_list (size_prod (\<lambda>_. 0) (size_option size)) d)))")
    simp_all

subsection \<open>Destructor\<close>

text \<open>How many heap blocks a tree occupies, and how many of them \<open>be_free\<close> releases.\<close>

definition str_blocks :: "string option \<Rightarrow> nat" where
  "str_blocks s = (if s = None then 0 else 1)"

fun be_blocks :: "be_node \<Rightarrow> nat" where
  "be_blocks (BE_STR s) = str_blocks s + 1"
| "be_blocks (BE_INT i) = 1"
| "be_blocks (BE_LIST xs) = sum_list (map be_blocks xs) + 1 + 1"
| "be_blocks (BE_DICT d) =
     sum_list (map (\<lambda>e. str_blocks (fst e) + (case snd e of None \<Rightarrow> 0 | Some y \<Rightarrow> be_blocks y)) d) + 1 + 1"

fun be_free :: "be_node \<Rightarrow> nat"
  and be_free_slots :: "be_slot list \<Rightarrow> nat" where
  "be_free (BE_STR s) = str_blocks s + 1"
| "be_free (BE_INT i) = 1"
| "be_free (BE_LIST xs) = sum_list (map be_free xs) + 1 + 1"
| "be_free (BE_DICT d) = be_free_slots d + 1 + 1"
| "be_free_slots [] = 0"
| "be_free_slots ((k, p) # d) =
     (case p of None \<Rightarrow> 0 | Some x \<Rightarrow> str_blocks k + be_free x + be_free_slots d)"

subsection \<open>The encoder writes the text\<close>

text \<open>
  \<open>wrote k t m off cap r\<close>: the run \<open>r\<close> returned \<open>k\<close> with \<open>t\<close> written at \<open>off\<close> when it fits the
  capacity, and otherwise \<open>-1\<close> with nothing changed outside the capacity.
\<close>

definition wrote :: "int \<Rightarrow> string \<Rightarrow> string \<Rightarrow> nat \<Rightarrow> nat \<Rightarrow> (int \<times> string option) res \<Rightarrow> bool" where
  "wrote k t m off cap r \<longleftrightarrow>
     (if length t \<le> cap then r = Inr (k, Some (take off m @ t @ drop (off + length t) m))
      else \<exists>m'. r = Inr (- 1, Some m') \<and> length m' = length m \<and> take off m' = take off m \<and>
        drop (off + cap) m' = drop (off + cap) m)"

lemma wrote_fail:
  "cap < length t \<Longrightarrow> wrote k t m off cap (Inr (- 1, Some m))"
  by (simp add: wrote_def)

lemma wrote_fail_append:
  assumes "wrote j t m off cap r" and "cap < length t"
  shows "\<exists>m'. r = Inr (- 1, Some m') \<and> wrote k (t @ u) m off cap (Inr (- 1, Some m'))"
  using assms by (auto simp: wrote_def)

lemma wrote_append:
  assumes "length t \<le> cap" and "off + cap \<le> length m"
    and "wrote k u (take off m @ t @ drop (off + length t) m) (off + length t) (cap - length t) r"
  shows "wrote k (t @ u) m off cap r"
proof (cases "length (t @ u) \<le> cap")
  case True
  with assms show ?thesis by (simp add: wrote_def ac_simps)
next
  case False
  then have neg: "\<not> length u \<le> cap - length t" using assms(1) by simp
  from assms(3) obtain m' where m': "r = Inr (- 1, Some m')"
    "length m' = length (take off m @ t @ drop (off + length t) m)"
    "take (off + length t) m' = take (off + length t) (take off m @ t @ drop (off + length t) m)"
    "drop (off + length t + (cap - length t)) m' =
      drop (off + length t + (cap - length t)) (take off m @ t @ drop (off + length t) m)"
    unfolding wrote_def if_not_P [OF neg] by blast
  have "take off m' = take off (take (off + length t) m')" by simp
  also have "\<dots> = take off m" unfolding m'(3) using assms(1,2) by simp
  finally have "take off m' = take off m" .
  moreover have "drop (off + cap) m' = drop (off + cap) m"
    using m'(4) assms(1,2) by (simp add: add.commute)
  moreover have "length m' = length m" using m'(2) assms(1,2) by simp
  ultimately show ?thesis using False m'(1) by (simp add: wrote_def)
qed

lemma be_encode_str_wrote:
  assumes "off + cap \<le> length m"
  shows "wrote (int (length (benc_str s))) (benc_str s) m off cap (be_encode_str (Some s) (Some m) off cap)"
proof (cases "length (benc_str s) \<le> cap")
  case True
  then have "be_encode_str (Some s) (Some m) off cap =
      and_then (store_n m off (nat_dec (length s) @ '':'')) (\<lambda>m.
        and_then (store_n m (off + length (nat_dec (length s) @ '':'')) s)
          (\<lambda>m. Inr (int (length (benc_str s)), Some m)))"
    by (simp add: be_encode_str_def benc_str_def Let_def)
  also have "\<dots> = and_then (store_n m off (benc_str s)) (\<lambda>m. Inr (int (length (benc_str s)), Some m))"
    unfolding store_n_append by (simp add: benc_str_def)
  finally show ?thesis using True assms by (simp add: wrote_def store_n_def)
next
  case False
  then show ?thesis
    by (simp add: wrote_def be_encode_str_def benc_str_def Let_def)
qed

lemma be_encode_end_wrote:
  assumes "off + cap \<le> length m" and "sz + 1 < 2 ^ 31"
  shows "wrote (sz + 1) ''e'' m off cap (be_encode_end (Some m) off cap sz)"
  using assms by (auto simp: wrote_def be_encode_end_def store_opt_def store_def upd_conv_take_nth_drop)

text \<open>One round of a loop: a write, the test of its result, and the rest of the loop.\<close>

lemma wrote_then:
  assumes "wrote (int (length t)) t m off cap r" and "off + cap \<le> length m"
    and "\<And>m'. \<lbrakk>length t \<le> cap; length m' = length m\<rbrakk> \<Longrightarrow>
      wrote k u m' (off + length t) (cap - length t)
        (f (Some m') (off + length t) (cap - length t) (int (length t)))"
  shows "wrote k (t @ u) m off cap (and_then r (\<lambda>(r, out).
      if r < 0 then Inr (- 1, out) else f out (off + nat r) (size_t_minus cap (nat r)) r))"
proof (cases "length t \<le> cap")
  case True
  let ?m = "take off m @ t @ drop (off + length t) m"
  have "length ?m = length m" using True assms(2) by simp
  from wrote_append [OF True assms(2) assms(3) [OF True this]] show ?thesis
    using True assms(1) by (simp add: wrote_def size_t_minus_def)
next
  case False
  with wrote_fail_append [OF assms(1), of k u] show ?thesis by auto
qed

definition encodes :: "be_node \<Rightarrow> bool" where
  "encodes x \<longleftrightarrow> (\<forall>m off cap. off + cap \<le> length m \<longrightarrow> length (be_text x) < 2 ^ 31 \<longrightarrow>
     wrote (int (length (be_text x))) (be_text x) m off cap (be_encode x (Some m) off cap))"

lemma be_encode_list_wrote:
  assumes "\<And>x. x \<in> set xs \<Longrightarrow> encodes x"
    and "off + cap \<le> length m" and "0 \<le> sz" and "sz + int (length (concat (map be_text xs))) + 1 < 2 ^ 31"
  shows "wrote (sz + int (length (concat (map be_text xs))) + 1) (concat (map be_text xs) @ ''e'') m off cap
    (be_encode_list xs (Some m) off cap sz)"
  using assms
proof (induction xs arbitrary: m off cap sz)
  case Nil
  then show ?case using be_encode_end_wrote [of off cap m sz] by simp
next
  case (Cons x xs)
  let ?t = "be_text x" and ?u = "concat (map be_text xs) @ ''e''"
  let ?f = "\<lambda>out off cap r. be_encode_list xs out off cap (to_int32 (sz + r))"
  have sz: "to_int32 (sz + int (length ?t)) = sz + int (length ?t)"
    using Cons.prems(3,4) by (intro to_int32_id) simp_all
  have "wrote (sz + int (length ?t) + int (length (concat (map be_text xs))) + 1) (?t @ ?u) m off cap
      (and_then (be_encode x (Some m) off cap) (\<lambda>(r, out).
        if r < 0 then Inr (- 1, out) else ?f out (off + nat r) (size_t_minus cap (nat r)) r))"
  proof (rule wrote_then)
    show "wrote (int (length ?t)) ?t m off cap (be_encode x (Some m) off cap)"
      using Cons.prems by (simp add: encodes_def)
    fix m' :: string assume "length ?t \<le> cap" and "length m' = length m"
    then show "wrote (sz + int (length ?t) + int (length (concat (map be_text xs))) + 1) ?u m'
        (off + length ?t) (cap - length ?t)
        (?f (Some m') (off + length ?t) (cap - length ?t) (int (length ?t)))"
      unfolding sz using Cons.prems by (intro Cons.IH) simp_all
  qed (use Cons.prems in simp)
  then show ?case by (simp add: add.assoc)
qed

abbreviation slots_text :: "be_slot list \<Rightarrow> string" where
  "slots_text d \<equiv> concat (map (\<lambda>e. (case fst e of None \<Rightarrow> [] | Some k \<Rightarrow> benc_str k) @
       (case snd e of None \<Rightarrow> [] | Some y \<Rightarrow> be_text y)) d)"

lemma be_encode_dict_wrote:
  assumes "\<And>k p. (k, p) \<in> set d \<Longrightarrow> \<exists>s y. k = Some s \<and> p = Some y \<and> encodes y"
    and "off + cap \<le> length m" and "0 \<le> sz" and "sz + int (length (slots_text d)) + 1 < 2 ^ 31"
  shows "wrote (sz + int (length (slots_text d)) + 1) (slots_text d @ ''e'') m off cap
    (be_encode_dict d (Some m) off cap sz)"
  using assms
proof (induction d arbitrary: m off cap sz)
  case Nil
  then show ?case using be_encode_end_wrote [of off cap m sz] by simp
next
  case (Cons e d)
  obtain s y where e: "e = (Some s, Some y)" and y: "encodes y"
    using Cons.prems(1) [of "fst e" "snd e"] by (cases e) auto
  have d: "\<And>k p. (k, p) \<in> set d \<Longrightarrow> \<exists>s y. k = Some s \<and> p = Some y \<and> encodes y"
    by (rule Cons.prems(1)) simp
  let ?s = "benc_str s" and ?t = "be_text y" and ?u = "slots_text d @ ''e''"
  let ?k = "sz + int (length ?s) + int (length ?t) + int (length (slots_text d)) + 1"
  have bound: "?k < 2 ^ 31" using Cons.prems(4) by (simp add: e)
  have sz: "to_int32 (sz + int (length ?s)) = sz + int (length ?s)"
    "to_int32 (sz + int (length ?s) + int (length ?t)) = sz + int (length ?s) + int (length ?t)"
    using Cons.prems(3) bound by (simp_all add: to_int32_id)
  let ?g = "\<lambda>sz out off cap r. be_encode_dict d out off cap (to_int32 (sz + r))"
  let ?f = "\<lambda>out off cap r. and_then (be_encode y out off cap) (\<lambda>(r', out).
      if r' < 0 then Inr (- 1, out)
      else ?g (to_int32 (sz + r)) out (off + nat r') (size_t_minus cap (nat r')) r')"
  have "wrote ?k (?s @ ?t @ ?u) m off cap
      (and_then (be_encode_str (Some s) (Some m) off cap) (\<lambda>(r, out).
        if r < 0 then Inr (- 1, out) else ?f out (off + nat r) (size_t_minus cap (nat r)) r))"
  proof (rule wrote_then)
    show "wrote (int (length ?s)) ?s m off cap (be_encode_str (Some s) (Some m) off cap)"
      using Cons.prems(2) by (rule be_encode_str_wrote)
    fix m' :: string assume m': "length ?s \<le> cap" "length m' = length m"
    show "wrote ?k (?t @ ?u) m' (off + length ?s) (cap - length ?s)
        (?f (Some m') (off + length ?s) (cap - length ?s) (int (length ?s)))"
    proof (rule wrote_then)
      show "wrote (int (length ?t)) ?t m' (off + length ?s) (cap - length ?s)
          (be_encode y (Some m') (off + length ?s) (cap - length ?s))"
        using y m' Cons.prems(2,3) bound by (simp add: encodes_def)
      fix m'' :: string assume m'': "length ?t \<le> cap - length ?s" "length m'' = length m'"
      show "wrote ?k ?u m'' (off + length ?s + length ?t) (cap - length ?s - length ?t)
          (?g (to_int32 (sz + int (length ?s))) (Some m'') (off + length ?s + length ?t)
            (cap - length ?s - length ?t) (int (length ?t)))"
        unfolding sz using m' m'' Cons.prems(2,3) bound d by (intro Cons.IH) simp_all
    qed (use m' Cons.prems(2) in simp)
  qed (rule Cons.prems(2))
  then show ?case unfolding e be_encode_dict.simps option.case Let_def by (simp add: add.assoc)
qed

lemma be_encode_text: "be_full x \<Longrightarrow> encodes x"
proof (induction x rule: be_node_induct)
  case (BE_STR s)
  then obtain t where t: "s = Some t" by (auto split: option.splits)
  show ?case
    unfolding encodes_def
  proof (intro allI impI)
    fix m :: string and off cap assume "off + cap \<le> length m" and len: "length (be_text (BE_STR s)) < 2 ^ 31"
    then have "wrote (int (length (benc_str t))) (benc_str t) m off cap
        (be_encode_str (Some t) (Some m) off cap)" by (intro be_encode_str_wrote)
    moreover have "to_int32 (int (length (benc_str t))) = int (length (benc_str t))"
      using len by (intro to_int32_id) (simp_all add: t)
    moreover have "to_int32 (- 1) = - 1" by (rule to_int32_id) simp_all
    moreover obtain c cs where "benc_str t = c # cs"
      using benc_str_first [of t] by (cases "benc_str t") auto
    ultimately show "wrote (int (length (be_text (BE_STR s)))) (be_text (BE_STR s)) m off cap
        (be_encode (BE_STR s) (Some m) off cap)"
      by (cases "cap < length (benc_str t)") (auto simp: wrote_def t)
  qed
next
  case (BE_INT i)
  show ?case by (auto simp: encodes_def wrote_def store_n_def benc_int_def Let_def)
next
  case (BE_LIST xs)
  then have xs: "\<And>x. x \<in> set xs \<Longrightarrow> encodes x" by (simp add: list_all_iff)
  show ?case
    unfolding encodes_def
  proof (intro allI impI)
    fix m :: string and off cap assume m: "off + cap \<le> length m" and len: "length (be_text (BE_LIST xs)) < 2 ^ 31"
    let ?m = "take off m @ ''l'' @ drop (off + 1) m"
    show "wrote (int (length (be_text (BE_LIST xs)))) (be_text (BE_LIST xs)) m off cap
        (be_encode (BE_LIST xs) (Some m) off cap)"
    proof (cases "cap = 0")
      case False
      then have "wrote (1 + int (length (concat (map be_text xs))) + 1) (concat (map be_text xs) @ ''e'')
          ?m (off + 1) (cap - 1) (be_encode_list xs (Some ?m) (off + 1) (cap - 1) 1)"
        using m len by (intro be_encode_list_wrote) (simp_all add: xs)
      with wrote_append [of "''l''" cap off m "int (length (be_text (BE_LIST xs)))"
          "concat (map be_text xs) @ ''e''"] False m
      show ?thesis by (simp add: store_opt_def store_def upd_conv_take_nth_drop)
    qed (simp add: wrote_def)
  qed
next
  case (BE_DICT d)
  then have d: "\<And>k p. (k, p) \<in> set d \<Longrightarrow> \<exists>s y. k = Some s \<and> p = Some y \<and> encodes y"
    by (fastforce simp: list_all_iff split: option.splits)
  show ?case
    unfolding encodes_def
  proof (intro allI impI)
    fix m :: string and off cap assume m: "off + cap \<le> length m" and len: "length (be_text (BE_DICT d)) < 2 ^ 31"
    let ?m = "take off m @ ''d'' @ drop (off + 1) m"
    show "wrote (int (length (be_text (BE_DICT d)))) (be_text (BE_DICT d)) m off cap
        (be_encode (BE_DICT d) (Some m) off cap)"
    proof (cases "cap = 0")
      case False
      then have "wrote (1 + int (length (slots_text d)) + 1) (slots_text d @ ''e'')
          ?m (off + 1) (cap - 1) (be_encode_dict d (Some ?m) (off + 1) (cap - 1) 1)"
        using m len by (intro be_encode_dict_wrote d) simp_all
      with wrote_append [of "''d''" cap off m "int (length (be_text (BE_DICT d)))"
          "slots_text d @ ''e''"] False m
      show ?thesis by (simp add: store_opt_def store_def upd_conv_take_nth_drop)
    qed (simp add: wrote_def)
  qed
qed

subsection \<open>The size computation\<close>

definition sizes :: "be_node \<Rightarrow> bool" where
  "sizes x \<longleftrightarrow> (\<forall>off cap. length (be_text x) < 2 ^ 31 \<longrightarrow>
     be_encode x None off cap = Inr (int (length (be_text x)), None))"

lemma be_encode_end_size: "sz + 1 < 2 ^ 31 \<Longrightarrow> be_encode_end None off cap sz = Inr (sz + 1, None)"
  by (simp add: be_encode_end_def store_opt_def)

lemma be_encode_str_size:
  "be_encode_str (Some s) None off cap = Inr (int (length (benc_str s)), None)"
  by (simp add: be_encode_str_def benc_str_def Let_def)

lemma be_encode_list_size:
  assumes "\<And>x. x \<in> set xs \<Longrightarrow> sizes x"
    and "0 \<le> sz" and "sz + int (length (concat (map be_text xs))) + 1 < 2 ^ 31"
  shows "be_encode_list xs None off cap sz =
    Inr (sz + int (length (concat (map be_text xs))) + 1, None)"
  using assms
proof (induction xs arbitrary: off cap sz)
  case Nil
  then show ?case using be_encode_end_size [of sz off cap] by simp
next
  case (Cons x xs)
  then have "to_int32 (sz + int (length (be_text x))) = sz + int (length (be_text x))"
    by (intro to_int32_id) simp_all
  with Cons show ?case by (simp add: sizes_def add.assoc)
qed

lemma be_encode_dict_size:
  assumes "\<And>k p. (k, p) \<in> set d \<Longrightarrow> \<exists>s y. k = Some s \<and> p = Some y \<and> sizes y"
    and "0 \<le> sz" and "sz + int (length (slots_text d)) + 1 < 2 ^ 31"
  shows "be_encode_dict d None off cap sz = Inr (sz + int (length (slots_text d)) + 1, None)"
  using assms
proof (induction d arbitrary: off cap sz)
  case Nil
  then show ?case using be_encode_end_size [of sz off cap] by simp
next
  case (Cons e d)
  obtain s y where e: "e = (Some s, Some y)" and y: "sizes y"
    using Cons.prems(1) [of "fst e" "snd e"] by (cases e) auto
  have d: "\<And>k p. (k, p) \<in> set d \<Longrightarrow> \<exists>s y. k = Some s \<and> p = Some y \<and> sizes y"
    by (rule Cons.prems(1)) simp
  have "to_int32 (sz + int (length (benc_str s))) = sz + int (length (benc_str s))"
    "to_int32 (sz + (int (length (benc_str s)) + int (length (be_text y)))) =
      sz + (int (length (benc_str s)) + int (length (be_text y)))"
    using Cons.prems(2,3) by (simp_all add: to_int32_id e)
  moreover have "be_encode_dict d None off' cap' (sz + (int (length (benc_str s)) + int (length (be_text y)))) =
      Inr (sz + (int (length (benc_str s)) + int (length (be_text y))) + int (length (slots_text d)) + 1, None)"
    for off' cap'
    using Cons.prems(2,3) d by (intro Cons.IH) (simp_all add: e)
  ultimately show ?case
    using y Cons.prems(2,3) by (simp add: e Let_def be_encode_str_size sizes_def add.assoc)
qed

lemma be_encode_size: "be_full x \<Longrightarrow> sizes x"
proof (induction x rule: be_node_induct)
  case (BE_STR s)
  then show ?case
    by (auto simp: sizes_def be_encode_str_size to_int32_id split: option.splits)
next
  case (BE_INT i)
  show ?case by (simp add: sizes_def benc_int_def Let_def)
next
  case (BE_LIST xs)
  then have "\<And>x. x \<in> set xs \<Longrightarrow> sizes x" by (simp add: list_all_iff)
  then show ?case by (simp add: sizes_def store_opt_def be_encode_list_size)
next
  case (BE_DICT d)
  then have "\<And>k p. (k, p) \<in> set d \<Longrightarrow> \<exists>s y. k = Some s \<and> p = Some y \<and> sizes y"
    by (fastforce simp: list_all_iff split: option.splits)
  then show ?case using be_encode_dict_size [of d 1] by (simp add: sizes_def store_opt_def)
qed

lemma be_decoden_run:
  assumes "\<And>n. 4 * length data \<le> n \<Longrightarrow> be_dec (Suc n) (data, len) = r"
  shows "be_decoden data len = and_then r (\<lambda>(p, cur). Inr p)"
  using assms [of "4 * length data"] by (simp add: be_decoden_def del: be_dec.simps)

text \<open>What the decoder returns for a text at the start of its input, whatever follows it.\<close>

lemma be_decoden_syn:
  assumes "syn_valid m y" and "m < 2 ^ 63" and "int (length (syn_text y)) \<le> len"
  shows "be_decoden (syn_text y @ rest) len = (if dicts_filled y then Inr (Some (syn_node y)) else Inl NullDeref)"
proof -
  have "be_dec (Suc n) (syn_text y @ rest, len) =
      (if dicts_filled y then Inr (Some (syn_node y), rest, len - int (length (syn_text y))) else Inl NullDeref)"
    if "4 * length (syn_text y @ rest) \<le> n" for n
    using that assms(3) by (intro syn_readsD [OF be_dec_syn [OF assms(1,2)]]) simp_all
  from be_decoden_run [OF this] show ?thesis by simp
qed

lemma be_decoden_text:
  assumes "be_full x" and "int (length (be_text x)) \<le> len"
  shows "be_decoden (be_text x @ rest) len = (if no_empty_dict x then Inr (Some x) else Inl NullDeref)"
  using be_decoden_syn [of "2 ^ 63 - 1" "node_syn x" len rest] node_syn_full [OF assms(1)] assms(2)
  unfolding node_syn_ok_def by simp

lemma syn_node_full: "syn_valid m y \<Longrightarrow> m < 2 ^ 63 \<Longrightarrow> be_full (syn_node y)"
  by (induction y rule: syn_induct) (auto simp: list_all_iff key_valid_def)

subsection \<open>Properties\<close>

text \<open>C7: \<open>be_encode\<close> writes exactly the text of the tree when it fits, and otherwise returns
  \<open>-1\<close> and has touched nothing outside the capacity it was given; with a null buffer it returns
  the size it needs, which is the size it then uses.\<close>

theorem be_encode_exact:
  assumes "be_full x" and "length (be_text x) < 2 ^ 31" and "off + cap \<le> length m"
  shows "be_encode x None 0 0 = Inr (int (length (be_text x)), None) \<and>
    (if length (be_text x) \<le> cap
     then be_encode x (Some m) off cap =
       Inr (int (length (be_text x)), Some (take off m @ be_text x @ drop (off + length (be_text x)) m))
     else \<exists>m'. be_encode x (Some m) off cap = Inr (- 1, Some m') \<and> length m' = length m \<and>
       take off m' = take off m \<and> drop (off + cap) m' = drop (off + cap) m)"
  using be_encode_size [OF assms(1)] be_encode_text [OF assms(1)] assms(2,3)
  by (simp add: sizes_def encodes_def wrote_def)

definition sample_node :: be_node where
  "sample_node = BE_DICT [(Some ''a'', Some (BE_LIST [BE_INT 7, BE_STR (Some ''xy'')])),
     (Some ''b'', Some (BE_INT (- 3)))]"

lemma sample_node_facts:
  "be_text sample_node = ''d1:ali7e2:xye1:bi-3ee''" "be_full sample_node" "no_empty_dict sample_node"
proof -
  show "be_text sample_node = ''d1:ali7e2:xye1:bi-3ee''"
    by (simp add: sample_node_def benc_str_def benc_int_def int_dec_def nat_dec.simps) code_simp
qed (simp_all add: sample_node_def)

theorem be_encode_exact_witness:
  "be_encode sample_node None 0 0 = Inr (21, None) \<and>
   (\<exists>m'. be_encode sample_node (Some (replicate 30 CHR ''.'')) 3 20 = Inr (- 1, Some m') \<and>
     take 3 m' = replicate 3 CHR ''.'')"
  using be_encode_exact [of sample_node 3 20 "replicate 30 CHR ''.''"]
  by (auto simp: sample_node_facts simp del: be_encode.simps)

text \<open>C33: a tree without null pointers, encoded into a large enough buffer and decoded from it, comes back as
  it was, whatever the rest of the buffer holds, provided that no dictionary in it is empty; with an
  empty dictionary anywhere in it, decoding its own encoding dereferences a null pointer.\<close>

theorem be_encode_decode:
  assumes "be_full x" and "length (be_text x) < 2 ^ 31" and "length (be_text x) \<le> length m"
  shows "\<exists>m'. be_encode x (Some m) 0 (length m) = Inr (int (length (be_text x)), Some m') \<and>
    length m' = length m \<and>
    be_decoden m' (int (length m')) = (if no_empty_dict x then Inr (Some x) else Inl NullDeref)"
proof -
  let ?m = "be_text x @ drop (length (be_text x)) m"
  have "be_decoden ?m (int (length ?m)) = (if no_empty_dict x then Inr (Some x) else Inl NullDeref)"
    using be_decoden_text [OF assms(1), of "int (length ?m)"] by simp
  moreover have "be_encode x (Some m) 0 (length m) = Inr (int (length (be_text x)), Some ?m)"
    using be_encode_text [OF assms(1)] assms(2,3) by (simp add: encodes_def wrote_def)
  ultimately show ?thesis using assms(3) by simp
qed

theorem be_encode_decode_witness:
  "(\<exists>m'. be_encode sample_node (Some (replicate 30 CHR ''.'')) 0 30 = Inr (21, Some m') \<and>
     be_decoden m' 30 = Inr (Some sample_node)) \<and>
   (\<exists>m'. be_encode (BE_LIST [BE_DICT []]) (Some (replicate 5 CHR ''.'')) 0 5 = Inr (4, Some m') \<and>
     be_decoden m' 5 = Inl NullDeref)"
  using be_encode_decode [of sample_node "replicate 30 CHR ''.''"]
    be_encode_decode [of "BE_LIST [BE_DICT []]" "replicate 5 CHR ''.''"]
  by (auto simp: sample_node_facts simp del: be_encode.simps)

text \<open>C27: decoding always returns: no input, well-formed or not, makes the recursive decoder
  loop, although the loop over a dictionary goes on past an entry it could not read. Four steps per
  byte and one more are always enough, and every larger bound gives the same result.\<close>

theorem be_decoden_returns:
  "be_decoden data len \<noteq> Inl OutOfFuel \<and>
   (\<forall>k. be_decoden data len = and_then (be_dec (4 * length data + 1 + k) (data, len)) (\<lambda>(p, cur). Inr p))"
  using be_decoden_fuel [of data len] be_decoden_bound [of data _ len] by (auto simp: fuelled_def simp del: be_dec.simps)

text \<open>The tree the C decoder builds for an item of the C++ library.\<close>

fun of_bitem :: "bitem \<Rightarrow> be_node" where
  "of_bitem (BInteger i) = BE_INT i"
| "of_bitem (BString s) = BE_STR (Some s)"
| "of_bitem (BList xs) =
     BE_LIST (map (\<lambda>p. case p of None \<Rightarrow> BE_STR None | Some y \<Rightarrow> of_bitem y) xs)"
| "of_bitem (BDictionary d) =
     BE_DICT (map (\<lambda>e. (Some (fst e), case snd e of None \<Rightarrow> None | Some y \<Rightarrow> Some (of_bitem y))) d)"

lemma be_text_of_bitem: "null_free x \<Longrightarrow> be_text (of_bitem x) = bencode x"
proof (induction x rule: bitem_induct)
  case (BList xs)
  then have "map be_text (map (\<lambda>p. case p of None \<Rightarrow> BE_STR None | Some y \<Rightarrow> of_bitem y) xs) =
      map (\<lambda>p. case p of None \<Rightarrow> [] | Some y \<Rightarrow> bencode y) xs"
    by (auto simp: list_all_iff split: option.splits)
  then show ?case by (simp only: of_bitem.simps be_text.simps bencode.simps)
next
  case (BDictionary d)
  then have "map (\<lambda>e. (case fst e of None \<Rightarrow> [] | Some k \<Rightarrow> benc_str k) @
       (case snd e of None \<Rightarrow> [] | Some y \<Rightarrow> be_text y))
       (map (\<lambda>e. (Some (fst e), case snd e of None \<Rightarrow> None | Some y \<Rightarrow> Some (of_bitem y))) d) =
     map (\<lambda>e. benc_str (fst e) @ (case snd e of None \<Rightarrow> [] | Some y \<Rightarrow> bencode y)) d"
    by (fastforce simp: list_all_iff split: option.splits)
  then show ?case by (simp only: of_bitem.simps be_text.simps bencode.simps)
qed simp_all

lemma be_full_of_bitem: "null_free x \<Longrightarrow> strings_within n x \<Longrightarrow> n < 2 ^ 63 \<Longrightarrow> be_full (of_bitem x)"
proof (induction x rule: bitem_induct)
  case (BList xs)
  then show ?case by (fastforce simp: list_all_iff split: option.splits)
next
  case (BDictionary d)
  then show ?case by (fastforce simp: list_all_iff split: option.splits)
qed simp_all

subsection \<open>Malformed input\<close>

lemma be_dec_list_append:
  assumes "\<And>x. x \<in> set xs \<Longrightarrow> be_full x \<and> reads_back x"
    and "2 * length (concat (map be_text xs)) + 1 \<le> n"
    and "int (length (concat (map be_text xs))) \<le> len"
  shows "be_dec_list n (concat (map be_text xs) @ s, len) =
    and_then (be_dec_list (n - length xs) (s, len - int (length (concat (map be_text xs)))))
      (\<lambda>(ys, cur). Inr (xs @ ys, cur))"
  using assms
proof (induction xs arbitrary: n len)
  case Nil
  then show ?case by (simp add: and_then_def split: sum.split)
next
  case (Cons x xs)
  obtain m where n: "n = Suc m" using Cons.prems(2) by (cases n) auto
  have x: "be_full x" "reads_back x" using Cons.prems(1) by simp_all
  obtain c cs where c: "be_text x = c # cs" "c \<noteq> CHR ''e''"
    using be_text_hd [OF x(1)] by (cases "be_text x") auto
  let ?r = "concat (map be_text xs) @ s"
  have "be_dec m (be_text x @ ?r, len) = Inr (Some x, ?r, len - int (length (be_text x)))"
    using x(2) Cons.prems(2,3) by (simp add: reads_back_def n)
  moreover have "be_dec_list m (?r, len - int (length (be_text x))) =
      and_then (be_dec_list (m - length xs)
        (s, len - int (length (be_text x)) - int (length (concat (map be_text xs)))))
      (\<lambda>(ys, cur). Inr (xs @ ys, cur))"
    by (rule Cons.IH) (use Cons.prems c in \<open>auto simp: n\<close>)
  ultimately show ?case
    using c by (simp add: n diff_diff_eq and_then_assoc case_prod_beta add.assoc)
qed

lemma be_text_length_ge: "be_full x \<Longrightarrow> Suc 0 \<le> length (be_text x)"
  using be_text_hd [of x] by (cases "be_text x") auto

lemma length_le_texts:
  "(\<And>x. x \<in> set xs \<Longrightarrow> be_full x) \<Longrightarrow> length xs \<le> length (concat (map be_text xs))"
proof (induction xs)
  case (Cons x xs)
  then show ?case using be_text_length_ge [of x] by simp
qed simp

text \<open>A list is closed by any byte that starts no value: the byte is skipped as if it were the
  closing \<open>e\<close> and the items read so far are returned as a list.\<close>

lemma be_list_closed_by_junk:
  assumes "\<forall>x \<in> set xs. be_full x \<and> no_empty_dict x"
    and "c \<notin> {CHR ''l'', CHR ''d'', CHR ''i'', CHR ''e''}" and "\<not> is_digit c"
  shows "be_decoden (''l'' @ concat (map be_text xs) @ c # rest)
      (int (length (''l'' @ concat (map be_text xs) @ c # rest))) = Inr (Some (BE_LIST xs))"
proof -
  let ?b = "concat (map be_text xs)"
  let ?len = "int (length (?b @ c # rest))" and ?left = "int (length (c # rest))"
  have xs: "\<And>x. x \<in> set xs \<Longrightarrow> be_full x \<and> reads_back x"
    using assms(1) be_dec_text by blast
  have lxs: "length xs \<le> length ?b" by (rule length_le_texts) (use xs in blast)
  have "be_dec (Suc n) (''l'' @ ?b @ c # rest, int (length (''l'' @ ?b @ c # rest))) =
      Inr (Some (BE_LIST xs), rest, ?left - 1)"
    if n: "4 * length (''l'' @ ?b @ c # rest) \<le> n" for n
  proof -
    obtain k where k: "n - length xs = Suc (Suc k)"
      using n lxs by (intro that [of "n - length xs - 2"]) simp
    have "be_dec_list (n - length xs) (c # rest, ?left) = Inr ([], c # rest, ?left)"
      unfolding k using assms(2,3) by simp
    moreover have "?len - int (length ?b) = ?left" by simp
    ultimately have "be_dec_list n (?b @ c # rest, ?len) = Inr (xs, c # rest, ?left)"
      using n by (subst be_dec_list_append [OF xs]) simp_all
    then show ?thesis by simp
  qed
  from be_decoden_run [OF this] show ?thesis by simp
qed

lemma be_dec_list_opens:
  "2 * k + 4 \<le> n \<Longrightarrow>
     be_dec_list n (replicate (Suc k) CHR ''l'' @ [CHR 0x00], int (Suc k)) = Inl OutOfBounds"
proof (induction k arbitrary: n)
  case 0
  then obtain m where "n = Suc (Suc (Suc (Suc m)))"
    by (intro that [of "n - 4"]) simp
  then show ?case by simp
next
  case (Suc k)
  then obtain m where n: "n = Suc (Suc m)" "2 * k + 4 \<le> m"
    by (intro that [of "n - 2"]) simp_all
  with Suc.IH [of m] show ?case by simp
qed

text \<open>C38: two or more lists that are opened and never closed make the decoder read past the end of
  the string: leaving the inner loop steps over the terminating zero.\<close>

theorem be_unclosed_lists_overrun:
  "be_decode (replicate (Suc (Suc k)) CHR ''l'' @ [CHR 0x00]) = Inl OutOfBounds"
proof -
  let ?s = "replicate (Suc (Suc k)) CHR ''l'' @ [CHR 0x00]"
  have len: "c_str ?s = replicate (Suc (Suc k)) CHR ''l''"
    unfolding c_str_def by (rule takeWhile_append_stop) auto
  have "be_dec (Suc n) (?s, int (Suc (Suc k))) = Inl OutOfBounds" if "4 * length ?s \<le> n" for n
    using be_dec_list_opens [of k n] that by simp
  from be_decoden_run [OF this] have "be_decoden ?s (int (Suc (Suc k))) = Inl OutOfBounds" by simp
  moreover have "be_decode ?s = be_decoden ?s (int (length (c_str ?s)))"
    by (simp add: be_decode_def)
  ultimately show ?thesis by (simp only: len length_replicate)
qed

text \<open>A dictionary whose last key has no value is accepted, with a slot whose value is null. To
  every reader of the tree the dictionary then ends before that slot, and \<open>be_free\<close> leaks its key.\<close>

lemma be_missing_value:
  assumes "length k < 2 ^ 63"
  shows "be_decoden (''d'' @ benc_str k @ ''e'' @ rest) (int (length (''d'' @ benc_str k @ ''e'' @ rest))) =
      Inr (Some (BE_DICT [(Some k, None)])) \<and>
    val_d (BE_DICT [(Some k, None)]) = Inr [] \<and>
    be_free (BE_DICT [(Some k, None)]) < be_blocks (BE_DICT [(Some k, None)])"
proof -
  let ?s = "benc_str k @ CHR ''e'' # rest"
  obtain c cs where c: "benc_str k = c # cs" "is_digit c"
    using benc_str_first [of k] by (cases "benc_str k") auto
  have "be_decode_str (?s, int (length ?s)) =
      Inr (Some k, CHR ''e'' # rest, int (length ?s) - int (length (benc_str k)))"
    using assms by (intro be_decode_str_benc) simp_all
  then have str: "be_decode_str (?s, int (length ?s)) = Inr (Some k, CHR ''e'' # rest, 1 + int (length rest))"
    by simp
  have "be_dec (Suc n) (''d'' @ ?s, int (length (''d'' @ ?s))) =
      Inr (Some (BE_DICT [(Some k, None)]), rest, int (length rest))"
    if n: "4 * length (''d'' @ ?s) \<le> n" for n
  proof -
    obtain m where m: "n = Suc (Suc m)" using n by (intro that [of "n - 2"]) simp
    show ?thesis
      using str c digit_not_special [of c] by (simp add: m word_null_def is_digit_def [of "CHR ''e''"])
  qed
  from be_decoden_run [OF this] show ?thesis
    by (simp add: val_d_def live_def str_blocks_def)
qed

text \<open>The empty dictionary cannot be decoded: its terminator is written through a null pointer.\<close>

lemma be_empty_dict_faults:
  assumes "len \<noteq> 0"
  shows "be_decoden (''de'' @ rest) len = Inl NullDeref"
proof -
  have "be_dec (Suc n) (''de'' @ rest, len) = Inl NullDeref" if "4 * length (''de'' @ rest) \<le> n" for n
    using assms that by (cases n) simp_all
  from be_decoden_run [OF this] show ?thesis by simp
qed

end
