(* ===== verification/BencodeDump.thy ===== *)
theory BencodeDump
  imports BencodeOut
begin

text \<open>
  The printing half of the C bencode library, \<open>be_dump\<close>, as the text it writes to the standard
  output, and the command line driver of \<open>bencode/test.c\<close> around it. An abstract outline, the
  list of the printed lines, is what the recursion with its signed indentation comes to.
\<close>

subsection \<open>The dump\<close>

text \<open>\<open>_be_dump_indent\<close>: nothing for a count that is not positive.\<close>

definition be_dump_indent :: "int \<Rightarrow> string" where
  "be_dump_indent k = concat (replicate (nat k) ''    '')"

text \<open>
  A negative indentation suppresses the indentation of the first line only: \<open>abs\<close> takes an
  \<open>int\<close>. \<open>DUMP_STRING\<close> is disabled, so strings are shown by their length. A null key handed to
  \<open>%s\<close> is an invalid argument.
\<close>

function (sequential) be_dump_at :: "be_node \<Rightarrow> int \<Rightarrow> string res"
  and be_dump_list :: "be_node list \<Rightarrow> int \<Rightarrow> string res"
  and be_dump_slots :: "be_slot list \<Rightarrow> int \<Rightarrow> string res" where
  "be_dump_at (BE_STR s) indent =
     and_then (be_str_len (BE_STR s)) (\<lambda>len.
       Inr (be_dump_indent indent @ ''str = '' @ '' (len = '' @ nat_dec len @ '')\<newline>''))"
| "be_dump_at (BE_INT i) indent =
     Inr (be_dump_indent indent @ ''int = '' @ int_dec (sint i) @ ''\<newline>'')"
| "be_dump_at (BE_LIST xs) indent =
     (let k = \<bar>to_int32 indent\<bar>
      in and_then (be_dump_list xs k) (\<lambda>items.
           Inr (be_dump_indent indent @ ''list [\<newline>'' @ items @ be_dump_indent k @ '']\<newline>'')))"
| "be_dump_at (BE_DICT d) indent =
     (let k = \<bar>to_int32 indent\<bar>
      in and_then (be_dump_slots d k) (\<lambda>items.
           Inr (be_dump_indent indent @ ''dict {\<newline>'' @ items @ be_dump_indent k @ ''}\<newline>'')))"
| "be_dump_list [] k = Inr []"
| "be_dump_list (x # xs) k =
     and_then (be_dump_at x (k + 1)) (\<lambda>t. and_then (be_dump_list xs k) (\<lambda>ts. Inr (t @ ts)))"
| "be_dump_slots [] k = Inr []"
| "be_dump_slots ((key, p) # d) k =
     (case p of
        None \<Rightarrow> Inr []
      | Some x \<Rightarrow>
          (case key of
             None \<Rightarrow> Inl NullDeref
           | Some s \<Rightarrow>
               and_then (be_dump_at x (- (k + 1))) (\<lambda>t.
               and_then (be_dump_slots d k) (\<lambda>ts.
                 Inr (be_dump_indent (k + 1) @ c_str s @ '' => '' @ t @ ts)))))"
  by pat_completeness auto

termination
  by (relation "measure (case_sum (\<lambda>(x, _). size x) (case_sum (\<lambda>(xs, _). size_list size xs)
        (\<lambda>(d, _). size_list (size_prod (\<lambda>_. 0) (size_option size)) d)))")
    simp_all

definition be_dump :: "be_node \<Rightarrow> string res" where
  "be_dump node = be_dump_at node 0"

text \<open>
  \<open>dump_string\<close>, which the macro \<open>DUMP_STRING\<close> would call: printable ASCII as it is, any other byte as
  an escape with two hexadecimal digits. Nothing is printed for a length that is not positive.
\<close>

definition hex_digit :: "nat \<Rightarrow> char" where
  "hex_digit d = (if d < 10 then char_of (48 + d) else char_of (87 + d))"

definition dump_byte :: "char \<Rightarrow> string" where
  "dump_byte c =
     (let b = of_char c :: nat in
      if 0x20 \<le> b \<and> b \<le> 0x7e then [c]
      else [CHR 0x5C, CHR ''x'', hex_digit (b div 16), hex_digit (b mod 16)])"

definition dump_string :: "string \<Rightarrow> int \<Rightarrow> string res" where
  "dump_string str len = and_then (load_n str 0 (nat len)) (\<lambda>s. Inr (concat (map dump_byte s)))"

lemma of_char_div: "(of_char c :: nat) div 16 < 16"
  using nat_of_char_less_256 [of c] by (intro less_mult_imp_div_less) simp

lemma hex_digit_printable: "d < 16 \<Longrightarrow> 0x20 \<le> (of_char (hex_digit d) :: nat) \<and> (of_char (hex_digit d) :: nat) \<le> 0x7e"
  by (simp add: hex_digit_def)

lemma dump_byte_printable: "d \<in> set (dump_byte c) \<Longrightarrow> 0x20 \<le> (of_char d :: nat) \<and> (of_char d :: nat) \<le> 0x7e"
  using hex_digit_printable [of "of_char c div 16"] hex_digit_printable [of "of_char c mod 16"] of_char_div [of c]
  by (auto simp: dump_byte_def Let_def split: if_splits)

text \<open>Whatever the bytes of a string, its dump is printable ASCII; it reads exactly the bytes it prints.\<close>

lemma dump_string_printable:
  "nat len \<le> length str \<Longrightarrow> \<exists>t. dump_string str len = Inr t \<and>
     (\<forall>d \<in> set t. 0x20 \<le> (of_char d :: nat) \<and> (of_char d :: nat) \<le> 0x7e)"
  "length str < nat len \<Longrightarrow> dump_string str len = Inl OutOfBounds"
  using dump_byte_printable by (auto simp: dump_string_def load_n_def)

subsection \<open>The outline\<close>

text \<open>
  The lines of a node whose own line starts with \<open>pre\<close> and whose depth is \<open>k\<close>; the entries of a
  dictionary are those before its first missing value.
\<close>

definition margin :: "nat \<Rightarrow> string" where
  "margin k = concat (replicate k ''    '')"

fun be_outline :: "string \<Rightarrow> nat \<Rightarrow> be_node \<Rightarrow> string list"
  and be_outline_slots :: "nat \<Rightarrow> be_slot list \<Rightarrow> string list" where
  "be_outline pre k (BE_STR s) =
     [pre @ ''str =  (len = '' @ nat_dec (case s of None \<Rightarrow> 0 | Some t \<Rightarrow> length t) @ '')'']"
| "be_outline pre k (BE_INT i) = [pre @ ''int = '' @ int_dec (sint i)]"
| "be_outline pre k (BE_LIST xs) =
     (pre @ ''list ['') # concat (map (be_outline (margin (Suc k)) (Suc k)) xs) @ [margin k @ '']'']"
| "be_outline pre k (BE_DICT d) =
     (pre @ ''dict {'') # be_outline_slots (Suc k) d @ [margin k @ ''}'']"
| "be_outline_slots k [] = []"
| "be_outline_slots k ((key, p) # d) =
     (case p of
        None \<Rightarrow> []
      | Some x \<Rightarrow>
          be_outline (margin k @ c_str (the key) @ '' => '') k x @ be_outline_slots k d)"

text \<open>Every entry that a reader sees has a key; the nesting depth.\<close>

fun keyed :: "be_node \<Rightarrow> bool"
  and keyed_slots :: "be_slot list \<Rightarrow> bool" where
  "keyed (BE_LIST xs) = list_all keyed xs"
| "keyed (BE_DICT d) = keyed_slots d"
| "keyed _ = True"
| "keyed_slots [] = True"
| "keyed_slots ((key, p) # d) =
     (case p of None \<Rightarrow> True | Some x \<Rightarrow> key \<noteq> None \<and> keyed x \<and> keyed_slots d)"

fun be_depth :: "be_node \<Rightarrow> nat"
  and be_depth_slots :: "be_slot list \<Rightarrow> nat" where
  "be_depth (BE_LIST xs) = Suc (foldr max (map be_depth xs) 0)"
| "be_depth (BE_DICT d) = Suc (be_depth_slots d)"
| "be_depth _ = 0"
| "be_depth_slots [] = 0"
| "be_depth_slots ((key, p) # d) =
     (case p of None \<Rightarrow> 0 | Some x \<Rightarrow> max (be_depth x) (be_depth_slots d))"

definition unlines :: "string list \<Rightarrow> string" where
  "unlines ls = concat (map (\<lambda>l. l @ ''\<newline>'') ls)"

lemma unlines_simps [simp]:
  "unlines [] = []"
  "unlines (l # ls) = l @ CHR 0x0A # unlines ls"
  "unlines (ls @ ms) = unlines ls @ unlines ms"
  by (simp_all add: unlines_def)

lemma be_outline_prefix: "unlines (be_outline (p @ q) k x) = p @ unlines (be_outline q k x)"
  by (cases x) simp_all

lemma be_dump_indent_simps [simp]:
  "be_dump_indent (int k) = margin k"
  "be_dump_indent (- int k) = []"
  by (simp_all add: be_dump_indent_def margin_def)

subsection \<open>The dump prints the outline\<close>

text \<open>What a run prints at depth \<open>k\<close>, with and without the indentation of its first line.\<close>

definition dumps :: "be_node \<Rightarrow> bool" where
  "dumps x \<longleftrightarrow> (\<forall>k. k + be_depth x < 2 ^ 31 \<longrightarrow>
     be_dump_at x (int k) = (if keyed x then Inr (unlines (be_outline (margin k) k x)) else Inl NullDeref) \<and>
     be_dump_at x (- int k) = (if keyed x then Inr (unlines (be_outline [] k x)) else Inl NullDeref))"

lemma dumpsD:
  assumes "dumps x" and "k + be_depth x < 2 ^ 31"
  shows "be_dump_at x (int k) = (if keyed x then Inr (unlines (be_outline (margin k) k x)) else Inl NullDeref)"
    and "be_dump_at x (- int k) = (if keyed x then Inr (unlines (be_outline [] k x)) else Inl NullDeref)"
  using assms by (simp_all add: dumps_def)

lemma be_dump_list_outline:
  assumes "\<And>x. x \<in> set xs \<Longrightarrow> dumps x" and "Suc k + foldr max (map be_depth xs) 0 < 2 ^ 31"
  shows "be_dump_list xs (int k) =
    (if list_all keyed xs then Inr (unlines (concat (map (be_outline (margin (Suc k)) (Suc k)) xs)))
     else Inl NullDeref)"
  using assms
proof (induction xs)
  case (Cons x xs)
  have "be_dump_at x (int (Suc k)) =
      (if keyed x then Inr (unlines (be_outline (margin (Suc k)) (Suc k) x)) else Inl NullDeref)"
    by (rule dumpsD) (use Cons.prems in simp_all)
  moreover have "be_dump_list xs (int k) =
    (if list_all keyed xs then Inr (unlines (concat (map (be_outline (margin (Suc k)) (Suc k)) xs)))
     else Inl NullDeref)"
    by (rule Cons.IH) (use Cons.prems in simp_all)
  moreover have "int k + 1 = int (Suc k)" by simp
  ultimately show ?case by (simp only: be_dump_list.simps) simp
qed simp

lemma be_dump_slots_outline:
  assumes "\<And>key x. (key, Some x) \<in> set d \<Longrightarrow> dumps x" and "Suc k + be_depth_slots d < 2 ^ 31"
  shows "be_dump_slots d (int k) =
    (if keyed_slots d then Inr (unlines (be_outline_slots (Suc k) d)) else Inl NullDeref)"
  using assms
proof (induction d)
  case (Cons e d)
  obtain key p where e: "e = (key, p)" by (cases e)
  show ?case
  proof (cases p)
    case (Some x)
    have "be_dump_at x (- int (Suc k)) =
        (if keyed x then Inr (unlines (be_outline [] (Suc k) x)) else Inl NullDeref)"
      by (rule dumpsD) (use Cons.prems e Some in \<open>simp_all, blast\<close>)
    moreover have "be_dump_slots d (int k) =
        (if keyed_slots d then Inr (unlines (be_outline_slots (Suc k) d)) else Inl NullDeref)"
      by (rule Cons.IH) (use Cons.prems e Some in \<open>simp_all, blast\<close>)
    moreover have "be_dump_indent (int k + 1) = margin (Suc k)"
      using be_dump_indent_simps(1) [of "Suc k"] by (simp add: add.commute)
    moreover have "- (int k + 1) = - int (Suc k)" by simp
    moreover have "unlines (be_outline (margin (Suc k) @ c_str (the key) @ '' => '') (Suc k) x) =
        margin (Suc k) @ c_str (the key) @ '' => '' @ unlines (be_outline [] (Suc k) x)"
      using be_outline_prefix [of "margin (Suc k) @ c_str (the key) @ '' => ''" "[]"] by simp
    ultimately show ?thesis
      by (cases key) (simp_all only: e Some be_dump_slots.simps option.case, simp_all)
  qed (simp add: e)
qed simp

lemma be_dump_at_outline: "dumps x"
proof (induction x rule: be_node_induct)
  case (BE_STR s)
  then show ?case by (cases s) (simp_all add: dumps_def be_str_len_def)
next
  case (BE_INT i)
  then show ?case by (simp add: dumps_def)
next
  case (BE_LIST xs)
  have "to_int32 (int k) = int k" "\<bar>to_int32 (- int k)\<bar> = int k" if "Suc k < 2 ^ 31" for k
    using that to_int32_id [of "int k"] to_int32_id [of "- int k"] by simp_all
  with be_dump_list_outline [OF BE_LIST] show ?case by (simp add: dumps_def Let_def)
next
  case (BE_DICT d)
  have "to_int32 (int k) = int k" "\<bar>to_int32 (- int k)\<bar> = int k" if "Suc k < 2 ^ 31" for k
    using that to_int32_id [of "int k"] to_int32_id [of "- int k"] by simp_all
  with be_dump_slots_outline [OF BE_DICT] show ?case by (simp add: dumps_def Let_def)
qed

text \<open>C22: \<open>be_dump\<close> prints the outline of the tree, one line per line with four blanks for every level:
  the signed indentation, which it passes down to leave out the margin of a value that follows its
  key, never shows. The one thing it cannot print is an entry whose key is null.\<close>

theorem be_dump_outline:
  assumes "be_depth x < 2 ^ 31"
  shows "be_dump x = (if keyed x then Inr (unlines (be_outline [] 0 x)) else Inl NullDeref)"
  using dumpsD(2) [OF be_dump_at_outline, of 0 x] assms by (simp add: be_dump_def)

definition dumped_node :: be_node where
  "dumped_node = BE_DICT [(Some ''a'', Some (BE_LIST [BE_INT 1, BE_DICT [(Some ''b'', Some (BE_STR (Some ''xyz'')))]]))]"

theorem be_dump_outline_witness:
  "be_dump dumped_node = Inr (unlines [''dict {'', ''    a => list ['', ''        int = 1'', ''        dict {'',
     ''            b => str =  (len = 3)'', ''        }'', ''    ]'', ''}''])"
proof -
  have "be_outline [] 0 dumped_node = [''dict {'', ''    a => list ['', ''        int = 1'', ''        dict {'',
      ''            b => str =  (len = 3)'', ''        }'', ''    ]'', ''}'']"
    by code_simp
  moreover have "be_depth dumped_node < 2 ^ 31" "keyed dumped_node" by (simp_all add: dumped_node_def)
  ultimately show ?thesis using be_dump_outline [of dumped_node] by simp
qed

subsection \<open>The command line driver\<close>

text \<open>
  What \<open>read_file\<close> can learn of a path: the size \<open>stat\<close> reports, whether the file can be opened, and
  the bytes a read delivers. The buffer has the reported size; \<open>fread\<close> fills at most that much of it
  and its result is not looked at, so the rest of the buffer stays as \<open>malloc\<close> gave it (\<open>garbage\<close>).
\<close>

record path_info =
  st_size :: nat
  can_open :: bool
  delivers :: string

definition read_file :: "(nat \<Rightarrow> string) \<Rightarrow> (string \<Rightarrow> path_info option) \<Rightarrow> string \<Rightarrow> (string \<times> int) option" where
  "read_file garbage fs file =
     (case fs file of
        None \<Rightarrow> None
      | Some info \<Rightarrow>
          if can_open info
          then let got = take (st_size info) (delivers info)
               in Some (got @ drop (length got) (garbage (st_size info)), int (st_size info))
          else None)"

text \<open>One argument of the driver: what cannot be read as a file is decoded itself.\<close>

definition decode_argument ::
  "(nat \<Rightarrow> string) \<Rightarrow> (string \<Rightarrow> path_info option) \<Rightarrow> string \<Rightarrow> string res" where
  "decode_argument garbage fs arg =
     (case (case read_file garbage fs arg of
          Some (buf, len) \<Rightarrow> (buf, len)
        | None \<Rightarrow> (arg @ [CHR 0x00], int (length arg))) of
        (buf, len) \<Rightarrow>
          and_then (be_decoden buf len) (\<lambda>n.
          and_then (case n of Some x \<Rightarrow> be_dump x | None \<Rightarrow> Inr (CHR 0x09 # ''parsing failed!\<newline>'')) (\<lambda>t.
            Inr (''DECODING: '' @ arg @ ''\<newline>'' @ t))))"

fun decode_driver ::
  "(nat \<Rightarrow> string) \<Rightarrow> (string \<Rightarrow> path_info option) \<Rightarrow> string list \<Rightarrow> string res" where
  "decode_driver garbage fs [] = Inr []"
| "decode_driver garbage fs (arg # args) =
     and_then (decode_argument garbage fs arg) (\<lambda>t.
     and_then (decode_driver garbage fs args) (\<lambda>ts. Inr (t @ ts)))"

text \<open>A path at which a bencoded text can be read; other bytes may follow it.\<close>

definition holds_text :: "path_info option \<Rightarrow> syn \<Rightarrow> bool" where
  "holds_text info y \<longleftrightarrow> (\<exists>p rest. info = Some p \<and> can_open p \<and> delivers p = syn_text y @ rest \<and>
     length (syn_text y) \<le> st_size p)"

lemma read_file_text:
  "holds_text (fs f) y \<Longrightarrow>
     \<exists>rest len. read_file garbage fs f = Some (syn_text y @ rest, len) \<and> int (length (syn_text y)) \<le> len"
  by (auto simp: holds_text_def read_file_def Let_def)

lemma be_full_keyed: "be_full x \<Longrightarrow> keyed x"
proof (induction x rule: be_node_induct)
  case (BE_LIST xs)
  then show ?case by (simp add: list_all_iff)
next
  case (BE_DICT d)
  have "(\<And>k y. (k, Some y) \<in> set d \<Longrightarrow> be_full y \<Longrightarrow> keyed y) \<Longrightarrow> be_full (BE_DICT d) \<Longrightarrow> keyed_slots d"
  proof (induction d)
    case (Cons e d)
    then show ?case by (cases e) (auto split: option.splits)
  qed simp
  with BE_DICT show ?case by simp
qed simp_all

text \<open>C37: the driver on files that start with a valid bencoded text (however it is written, nested less than
  2 to the 31 deep, and with anything behind it). If no text has an empty dictionary, it prints the name and
  the outline of each, in the order of its arguments; at the first one that has an empty dictionary
  the run ends by the use of a null pointer.\<close>

theorem driver_prints_outlines:
  assumes "\<forall>(f, y) \<in> set fys. holds_text (fs f) y \<and> syn_valid m y \<and> be_depth (syn_node y) < 2 ^ 31"
    and "m < 2 ^ 63"
  shows "decode_driver garbage fs (map fst fys) =
    (if list_all (\<lambda>(f, y). dicts_filled y) fys
     then Inr (concat (map (\<lambda>(f, y). unlines ((''DECODING: '' @ f) # be_outline [] 0 (syn_node y))) fys))
     else Inl NullDeref)"
  using assms(1)
proof (induction fys)
  case (Cons e fys)
  obtain f y where e: "e = (f, y)" by (cases e)
  from Cons.prems have y: "holds_text (fs f) y" "syn_valid m y" "be_depth (syn_node y) < 2 ^ 31"
    by (simp_all add: e)
  have "be_dump (syn_node y) = Inr (unlines (be_outline [] 0 (syn_node y)))"
    using dumpsD(2) [OF be_dump_at_outline, of 0 "syn_node y"] y(3) be_full_keyed [OF syn_node_full [OF y(2) assms(2)]]
    by (simp add: be_dump_def)
  moreover obtain rest len where "read_file garbage fs f = Some (syn_text y @ rest, len)"
    "int (length (syn_text y)) \<le> len" using read_file_text [of fs f y garbage, OF y(1)] by blast
  ultimately have "decode_argument garbage fs f = (if dicts_filled y
      then Inr (unlines ((''DECODING: '' @ f) # be_outline [] 0 (syn_node y))) else Inl NullDeref)"
    using be_decoden_syn [OF y(2) assms(2), of len rest] by (simp add: decode_argument_def)
  then show ?case using Cons by (simp add: e)
qed simp

theorem driver_prints_outlines_witness:
  "decode_driver (\<lambda>n. replicate n CHR ''?'')
     [''f'' \<mapsto> \<lparr>st_size = 6, can_open = True, delivers = ''li+5ee''\<rparr>] [''f'', ''f''] =
    Inr (concat (replicate 2 (unlines [''DECODING: f'', ''list ['', ''    int = 5'', '']'']))) \<and>
   decode_driver (\<lambda>n. replicate n CHR ''?'')
     [''f'' \<mapsto> \<lparr>st_size = 6, can_open = True, delivers = ''li+5ee''\<rparr>,
      ''g'' \<mapsto> \<lparr>st_size = 3, can_open = True, delivers = ''de\<newline>''\<rparr>] [''f'', ''g''] = Inl NullDeref"
proof
  let ?f = "\<lparr>st_size = 6, can_open = True, delivers = ''li+5ee''\<rparr>"
  let ?g = "\<lparr>st_size = 3, can_open = True, delivers = ''de\<newline>''\<rparr>"
  let ?y = "SList [SInt ''+'' ''5'']"
  have y: "syn_text ?y = ''li+5ee''" "syn_valid 0 ?y" "be_depth (syn_node ?y) < 2 ^ 31" "dicts_filled ?y"
    by (simp_all add: unpadded_def is_digit_def)
  have o: "be_outline [] 0 (syn_node ?y) = [''list ['', ''    int = 5'', '']'']" by code_simp
  have h: "holds_text (Some ?f) ?y" "holds_text (Some ?g) (SDict [])"
    by (simp_all add: holds_text_def y(1))
  show "decode_driver (\<lambda>n. replicate n CHR ''?'') [''f'' \<mapsto> ?f] [''f'', ''f''] =
      Inr (concat (replicate 2 (unlines [''DECODING: f'', ''list ['', ''    int = 5'', '']''])))"
    using driver_prints_outlines [of "[(''f'', ?y), (''f'', ?y)]" "[''f'' \<mapsto> ?f]" 0 "\<lambda>n. replicate n CHR ''?''"] h(1) y
    by (simp add: o numeral_2_eq_2 del: decode_driver.simps syn_node.simps syn_valid.simps)
  show "decode_driver (\<lambda>n. replicate n CHR ''?'') [''f'' \<mapsto> ?f, ''g'' \<mapsto> ?g] [''f'', ''g''] = Inl NullDeref"
    using driver_prints_outlines [of "[(''f'', ?y), (''g'', SDict [])]" "[''f'' \<mapsto> ?f, ''g'' \<mapsto> ?g]" 0
        "\<lambda>n. replicate n CHR ''?''"] h y
    by (simp del: decode_driver.simps)
qed

subsection \<open>Entries without a key\<close>













end
