(* ===== verification/BReencode.thy ===== *)
theory BReencode
  imports BencodeOut
begin

text \<open>
  Decoding a text with the C library and encoding the tree again, as the metafile reader does with the
  \<open>info\<close> dictionary before it is hashed: when the bytes of the file come back.
\<close>

subsection \<open>Plain texts\<close>

text \<open>Canonical texts, but for the order of keys, which the C library keeps.\<close>

fun plain :: "syn \<Rightarrow> bool" where
  "plain (SInt sg ds) = canonical_int sg ds"
| "plain (SStr ls s) = unpadded ls"
| "plain (SList ys) = list_all plain ys"
| "plain (SDict es) = list_all (\<lambda>e. unpadded (fst (fst e)) \<and> plain (snd e)) es"

lemma canonical_plain: "canonical y \<Longrightarrow> plain y"
  by (induction y rule: syn_induct) (auto simp: list_all_iff)

lemma clamp_range: "- (2 ^ 63) \<le> max LLONG_MIN (min LLONG_MAX v)" "max LLONG_MIN (min LLONG_MAX v) < 2 ^ 63"
  by (simp_all add: LLONG_MAX_def LLONG_MIN_def)

text \<open>The text of a tree is plain, and on plain texts decoding loses nothing.\<close>

lemma node_syn_plain: "be_full x \<Longrightarrow> plain (node_syn x)"
proof (induction x rule: be_node_induct)
  case (BE_INT i)
  have "- (2 ^ 63) \<le> sint i" "sint i < 2 ^ 63" using sint_greater_eq [of i] sint_lt [of i] by simp_all
  then show ?case using int_syn_canonical by simp
next
  case (BE_DICT d)
  then show ?case by (fastforce simp: list_all_iff unpadded_nat_dec split: option.splits)
qed (auto simp: list_all_iff unpadded_nat_dec split: option.splits)

lemma node_syn_of_node: "syn_valid m y \<Longrightarrow> plain y \<Longrightarrow> node_syn (syn_node y) = y"
proof (induction y rule: syn_induct)
  case (SInt sg ds)
  then have "int_syn (int_value sg ds) = (sg, ds)" by (intro int_syn_value) auto
  with SInt show ?case by (simp add: canonical_int_def clamp_id sint64_of_int)
next
  case (SStr ls s)
  then show ?case using canonical_key [of m "(ls, s)"] by simp
next
  case (SList ys)
  then show ?case by (auto simp: list_all_iff intro!: map_idI)
next
  case (SDict es)
  have "((nat_dec (length (snd (fst e))), snd (fst e)), node_syn (syn_node (snd e))) = e" if "e \<in> set es" for e
    using SDict that canonical_key [of m "fst e"] by (cases e) (fastforce simp: list_all_iff)
  then show ?case by (auto intro!: map_idI)
qed

subsection \<open>Re-encoding never lengthens a text\<close>

lemma dec_value_less: "list_all is_digit ds \<Longrightarrow> dec_value ds < 10 ^ length ds"
proof (induction ds rule: rev_induct)
  case (snoc d ds)
  then have "dec_value ds < 10 ^ length ds" "digit_value d < 10"
    by (auto simp: is_digit_def digit_value_def)
  then show ?case by (simp add: dec_value_snoc)
qed (simp add: dec_value_def)

lemma nat_dec_shortest:
  assumes "list_all is_digit ds" and "ds \<noteq> []" and "n \<le> dec_value ds"
  shows "length (nat_dec n) \<le> length ds"
  using nat_dec_length [of "length ds" n] dec_value_less [OF assms(1)] assms by simp

lemma int_dec_shortest:
  assumes "unpadded ds" and "sg \<in> {[], ''-'', ''+''}"
  shows "length (int_dec (max LLONG_MIN (min LLONG_MAX (int_value sg ds)))) \<le> length sg + length ds"
proof -
  have ds: "list_all is_digit ds" "ds \<noteq> []" using unpaddedD [OF assms(1)] by simp_all
  have "length (nat_dec n) \<le> length ds \<and> length (nat_dec n) \<le> Suc (length ds)" if "n \<le> dec_value ds" for n
    using nat_dec_shortest [OF ds that] by simp
  then show ?thesis
    using assms(2) by (auto simp: int_dec_def int_value_def LLONG_MAX_def LLONG_MIN_def min_def max_def)
qed

lemma benc_key_shortest: "key_valid m k \<Longrightarrow> length (benc_str (snd k)) \<le> length (key_text k)"
  using nat_dec_shortest [of "fst k" "length (snd k)"] by (simp add: key_valid_def key_text_def benc_str_def)

lemma length_concat_mono:
  "(\<And>x. x \<in> set xs \<Longrightarrow> length (f x) \<le> length (g x)) \<Longrightarrow> length (concat (map f xs)) \<le> length (concat (map g xs))"
  by (induction xs) (auto intro: add_mono)

lemma be_text_shortest: "syn_valid m y \<Longrightarrow> length (be_text (syn_node y)) \<le> length (syn_text y)"
proof (induction y rule: syn_induct)
  case (SInt sg ds)
  then show ?case using int_dec_shortest [of ds sg] clamp_range [of "int_value sg ds"]
    by (auto simp: benc_int_def sint64_of_int)
next
  case (SStr ls s)
  then show ?case using benc_key_shortest [of m "(ls, s)"] by simp
next
  case (SList ys)
  then show ?case by (auto simp: list_all_iff comp_def intro!: length_concat_mono)
next
  case (SDict es)
  have "length (benc_str (snd (fst e)) @ be_text (syn_node (snd e))) \<le> length (key_text (fst e) @ syn_text (snd e))"
    if "e \<in> set es" for e
    using SDict that benc_key_shortest [of m "fst e"] by (cases e) (fastforce simp: list_all_iff intro: add_mono)
  then show ?case by (auto simp: comp_def intro!: length_concat_mono)
qed

subsection \<open>Properties\<close>

text \<open>C13: decoding a valid text with the C library and encoding the tree again. A text with an empty
  dictionary anywhere in it never gets that far: decoding it dereferences a null pointer. For every other
  text the bytes come back exactly when its numbers and lengths are written in their shortest form (without
  plus signs, negative zeros, leading zeros and integers that were clamped); the order of keys does not
  matter. So the identity of a torrent, which is the hash of the re-encoded \<open>info\<close> dictionary, is the hash
  of what the file says only for such files. Otherwise the result is well-formed too, and never longer.\<close>

theorem c_reencoding:
  assumes "syn_valid m y" and "m < 2 ^ 63"
    and "length (syn_text y) < 2 ^ 31" and "length (syn_text y) \<le> length buf"
  shows "if dicts_filled y
    then \<exists>x t. be_decoden (syn_text y) (int (length (syn_text y))) = Inr (Some x) \<and>
      be_encode x (Some buf) 0 (length buf) = Inr (int (length t), Some (t @ drop (length t) buf)) \<and>
      length t \<le> length (syn_text y) \<and> (t = syn_text y \<longleftrightarrow> plain y)
    else be_decoden (syn_text y) (int (length (syn_text y))) = Inl NullDeref"
proof -
  let ?x = "syn_node y" and ?s = "syn_text y"
  have full: "be_full ?x" using assms(1,2) by (rule syn_node_full)
  have t: "length (be_text ?x) \<le> length ?s" using assms(1) by (rule be_text_shortest)
  have dec: "be_decoden ?s (int (length ?s)) = (if dicts_filled y then Inr (Some ?x) else Inl NullDeref)"
    using be_decoden_syn [OF assms(1,2), of "int (length ?s)" "[]"] by simp
  have enc: "be_encode ?x (Some buf) 0 (length buf) =
      Inr (int (length (be_text ?x)), Some (be_text ?x @ drop (length (be_text ?x)) buf))"
    using be_encode_text [OF full] t assms(3,4) by (simp add: encodes_def wrote_def)
  have "be_text ?x = ?s \<longleftrightarrow> plain y"
  proof
    assume eq: "be_text ?x = ?s"
    have v: "syn_text (node_syn ?x) = be_text ?x" "syn_valid (2 ^ 63 - 1) (node_syn ?x)"
      using node_syn_full [OF full] unfolding node_syn_ok_def by blast+
    have "m \<le> 2 ^ 63 - 1" using assms(2) by linarith
    then have "syn_valid (2 ^ 63 - 1) y" by (rule syn_valid_mono [OF assms(1)])
    from syn_text_unique [OF _ v(2) this, of "[]" "[]"] v(1) eq have "node_syn ?x = y" by simp
    with node_syn_plain [OF full] show "plain y" by simp
  next
    assume "plain y"
    then have "node_syn ?x = y" using assms(1) by (intro node_syn_of_node)
    with node_syn_full [OF full] show "be_text ?x = ?s" by (simp add: node_syn_ok_def)
  qed
  with dec enc t show ?thesis by auto
qed

theorem c_reencoding_witness:
  "(\<exists>x t. be_decoden ''d1:bi-0e1:ai7ee'' 15 = Inr (Some x) \<and>
    be_encode x (Some (replicate 20 CHR ''.'')) 0 20 = Inr (int (length t), Some (t @ drop (length t) (replicate 20 CHR ''.''))) \<and>
    t \<noteq> ''d1:bi-0e1:ai7ee'') \<and>
   be_decoden ''de'' 2 = Inl NullDeref"
proof
  let ?y = "SDict [((''1'', ''b''), SInt ''-'' ''0''), ((''1'', ''a''), SInt [] ''7'')]"
  have y: "syn_text ?y = ''d1:bi-0e1:ai7ee''" "syn_valid 10 ?y" "\<not> plain ?y" "dicts_filled ?y"
    by (simp_all add: key_text_def key_valid_def unpadded_def is_digit_def dec_value_def digit_value_def canonical_int_def)
  have "\<exists>x t. be_decoden (syn_text ?y) (int (length (syn_text ?y))) = Inr (Some x) \<and>
    be_encode x (Some (replicate 20 CHR ''.'')) 0 (length (replicate 20 CHR ''.'')) =
      Inr (int (length t), Some (t @ drop (length t) (replicate 20 CHR ''.''))) \<and>
    length t \<le> length (syn_text ?y) \<and> (t = syn_text ?y \<longleftrightarrow> plain ?y)"
    by (rule c_reencoding [OF y(2), unfolded if_P [OF y(4)]]) (simp_all only: y(1), simp_all)
  then show "\<exists>x t. be_decoden ''d1:bi-0e1:ai7ee'' 15 = Inr (Some x) \<and>
    be_encode x (Some (replicate 20 CHR ''.'')) 0 20 = Inr (int (length t), Some (t @ drop (length t) (replicate 20 CHR ''.''))) \<and>
    t \<noteq> ''d1:bi-0e1:ai7ee''"
    unfolding y(1) using y(3) by (simp del: plain.simps drop_replicate) blast
  show "be_decoden ''de'' 2 = Inl NullDeref"
    using c_reencoding [of 10 "SDict []" "replicate 2 CHR ''.''"] by simp
qed

end
