(* ===== verification/Tracker.thy ===== *)
theory Tracker
  imports BencodeOut
begin

text \<open>
  The tracker client (\<open>tracker_connector.cpp\<close>): the announce URL, the callback that receives the
  response, the search of the decoded response for peers. libcurl is a parameter: \<open>esc\<close> is
  \<open>curl_easy_escape\<close> on the 20 bytes it is given, \<open>http\<close> the chunks the transfer of a URL hands
  to the callback, in order.
\<close>

record peer =
  peer_ip :: string
  peer_peer_id :: string
  peer_port :: int

record tracker =
  tracker_curl :: bool
  tracker_url :: string
  tracker_peers :: "peer list"

definition TrackerConnector :: "bool \<Rightarrow> string \<Rightarrow> tracker" where
  "TrackerConnector init_ok trackerurl =
     (if \<not> init_ok then \<lparr>tracker_curl = False, tracker_url = [], tracker_peers = []\<rparr>
      else \<lparr>tracker_curl = True, tracker_url = trackerurl, tracker_peers = []\<rparr>)"

definition get_peers :: "tracker \<Rightarrow> peer list" where
  "get_peers t = tracker_peers t"

subsection \<open>Announce URL\<close>

definition append_c :: "string \<Rightarrow> string option \<Rightarrow> string res" where
  "append_c s p = (case p of None \<Rightarrow> Inl NullDeref | Some t \<Rightarrow> Inr (s @ t))"

definition tracker_encode ::
  "(string \<Rightarrow> string option) \<Rightarrow> tracker \<Rightarrow> string \<Rightarrow> string \<Rightarrow> int \<Rightarrow> string res" where
  "tracker_encode esc t info_hash peer_id port =
     and_then (load_n info_hash 0 20) (\<lambda>h.
     and_then (load_n peer_id 0 20) (\<lambda>p.
     and_then (append_c (tracker_url t @ ''?'' @ ''info_hash='') (esc h)) (\<lambda>get_request.
     and_then (append_c (get_request @ ''&'' @ ''peer_id='') (esc p)) (\<lambda>get_request.
       Inr (get_request @ ''&'' @ ''port='' @ int_dec port @ ''&'' @ ''uploaded=0'' @ ''&'' @
         ''downloaded=0'' @ ''&'' @ ''left=0'' @ ''&'' @ ''compact=0'')))))"

subsection \<open>Receiving the response\<close>

text \<open>Every chunk is copied to the start of the 10000 byte buffer.\<close>

definition response_size :: nat where
  "response_size = 10000"

definition write_callback :: "string \<Rightarrow> string \<Rightarrow> string res" where
  "write_callback userdata chunk = store_n userdata 0 chunk"

fun receive_chunks :: "string \<Rightarrow> string list \<Rightarrow> string res" where
  "receive_chunks response [] = Inr response"
| "receive_chunks response (c # cs) =
     and_then (write_callback response c) (\<lambda>response. receive_chunks response cs)"

subsection \<open>Reading the response\<close>

text \<open>
  Indexed access to the slots of a dictionary. The slot after the last has a null value; the
  key of an empty dictionary's terminator is null, as the decoder left it.
\<close>

definition val_slots :: "be_node \<Rightarrow> be_slot list res" where
  "val_slots node = (case node of BE_DICT d \<Rightarrow> Inr d | _ \<Rightarrow> Inl TypeConfusion)"

definition slot_key :: "be_slot list \<Rightarrow> string res" where
  "slot_key d = (case d of [] \<Rightarrow> Inl NullDeref
     | (k, p) # _ \<Rightarrow> (case k of None \<Rightarrow> Inl NullDeref | Some s \<Rightarrow> Inr s))"

definition slot_val :: "be_slot list \<Rightarrow> nat \<Rightarrow> be_node res" where
  "slot_val d i =
     (if length d < i then Inl OutOfBounds
      else if i = length d then Inl NullDeref
      else case snd (d ! i) of None \<Rightarrow> Inl NullDeref | Some x \<Rightarrow> Inr x)"

fun parse_list_dict :: "be_node list \<Rightarrow> peer list res" where
  "parse_list_dict [] = Inr []"
| "parse_list_dict (x # xs) =
     and_then (val_slots x) (\<lambda>d.
     and_then (slot_key d) (\<lambda>k.
     and_then (load_n (k @ [CHR 0x00]) 0 2) (\<lambda>str.
       if str \<noteq> ''ip'' then Inr []
       else and_then (and_then (slot_val d 0) val_s) (\<lambda>ip.
            and_then (and_then (slot_val d 1) val_s) (\<lambda>pid.
            and_then (and_then (slot_val d 2) val_i) (\<lambda>port.
            and_then (parse_list_dict xs) (\<lambda>peer_list.
              Inr (\<lparr>peer_ip = c_str ip, peer_peer_id = c_str pid, peer_port = to_int32 (sint port)\<rparr> # peer_list))))))))"

fun read_peers :: "(string option \<times> be_node) list \<Rightarrow> tracker \<Rightarrow> tracker res" where
  "read_peers [] t = Inr t"
| "read_peers ((k, x) # d) t =
     and_then (key_is k ''peers'') (\<lambda>b.
     and_then (if b then and_then (val_l x) (\<lambda>xs. and_then (parse_list_dict xs) (\<lambda>ps.
                 Inr (t\<lparr>tracker_peers := ps\<rparr>))) else Inr t) (\<lambda>t.
       read_peers d t))"

definition deref_node :: "be_node option \<Rightarrow> be_node res" where
  "deref_node p = (case p of None \<Rightarrow> Inl NullDeref | Some x \<Rightarrow> Inr x)"

text \<open>libcurl refuses the null handle that a failed initialisation left behind: nothing is transferred.\<close>

definition transfer :: "tracker \<Rightarrow> (string \<Rightarrow> string list) \<Rightarrow> string \<Rightarrow> string list" where
  "transfer t http u = (if tracker_curl t then http u else [])"

definition tracker_request ::
  "(string \<Rightarrow> string option) \<Rightarrow> (string \<Rightarrow> string list) \<Rightarrow> tracker \<Rightarrow>
     string option \<Rightarrow> string option \<Rightarrow> int \<Rightarrow> (int \<times> tracker) res" where
  "tracker_request esc http t info_hash peer_id port =
     (case info_hash of None \<Rightarrow> Inr (- 1, t) | Some h \<Rightarrow>
     (case peer_id of None \<Rightarrow> Inr (- 1, t) | Some p \<Rightarrow>
        and_then (tracker_encode esc t h p port) (\<lambda>u.
        and_then (receive_chunks (replicate response_size CHR 0x00) (transfer t http u)) (\<lambda>response.
        and_then (be_decode response) (\<lambda>n.
        and_then (and_then (deref_node n) val_d) (\<lambda>d.
        and_then (read_peers d t) (\<lambda>t. Inr (0, t))))))))"

subsection \<open>The announce URL determines the announcement\<close>

lemma split_at_amp:
  assumes "CHR ''&'' \<notin> set a" and "CHR ''&'' \<notin> set b" and "a @ CHR ''&'' # r = b @ CHR ''&'' # s"
  shows "a = b \<and> r = s"
proof -
  have "takeWhile (\<lambda>c. c \<noteq> CHR ''&'') (a @ CHR ''&'' # r) = a"
    "takeWhile (\<lambda>c. c \<noteq> CHR ''&'') (b @ CHR ''&'' # s) = b"
    using assms(1,2) by (auto intro!: takeWhile_append_stop)
  with assms(3) show ?thesis by simp
qed

lemma int_dec_no_amp: "CHR ''&'' \<notin> set (int_dec i)"
  using nat_dec_digits [of "CHR ''&''"] by (auto simp: int_dec_def is_digit_def)

lemma int_dec_inj: "int_dec i = int_dec j \<Longrightarrow> i = j"
proof -
  have hd: "hd (nat_dec n) \<noteq> CHR ''-''" for n
    using digit_not_special [OF nat_dec_hd_digit [of n]] by simp
  then have "CHR ''-'' # x \<noteq> nat_dec n" "nat_dec n \<noteq> CHR ''-'' # x" for x n
    by (metis list.sel(1))+
  then show "int_dec i = int_dec j \<Longrightarrow> i = j"
    by (auto simp: int_dec_def nat_dec_inj split: if_splits)
qed

text \<open>C31: the announce URL identifies the announcement: provided that escaping is injective and
  never produces an ampersand, two announcements with the same URL are for the same torrent, peer
  and port.\<close>

theorem announce_url_injective:
  assumes esc: "\<forall>s e. esc s = Some e \<longrightarrow> CHR ''&'' \<notin> set e"
      "\<forall>s s' e. esc s = Some e \<longrightarrow> esc s' = Some e \<longrightarrow> s = s'"
    and "tracker_encode esc t h p port = Inr u" and "tracker_encode esc t h' p' port' = Inr u"
  shows "take 20 h = take 20 h' \<and> take 20 p = take 20 p' \<and> port = port'"
proof -
  have form: "\<exists>eh ep. esc (take 20 h) = Some eh \<and> esc (take 20 p) = Some ep \<and>
      u = (tracker_url t @ ''?info_hash='') @ eh @ CHR ''&'' # (''peer_id='' @ ep) @ CHR ''&'' #
        (''port='' @ int_dec port) @ CHR ''&'' # ''uploaded=0&downloaded=0&left=0&compact=0''"
    if "tracker_encode esc t h p port = Inr u" for h p port
    using that
    by (auto simp: tracker_encode_def append_c_def load_n_def split: option.splits if_splits
        elim!: and_then_InrE)
  from form [OF assms(3)] obtain eh ep where 1: "esc (take 20 h) = Some eh" "esc (take 20 p) = Some ep"
    "u = (tracker_url t @ ''?info_hash='') @ eh @ CHR ''&'' # (''peer_id='' @ ep) @ CHR ''&'' #
        (''port='' @ int_dec port) @ CHR ''&'' # ''uploaded=0&downloaded=0&left=0&compact=0''" by blast
  from form [OF assms(4)] obtain eh' ep' where 2: "esc (take 20 h') = Some eh'" "esc (take 20 p') = Some ep'"
    "u = (tracker_url t @ ''?info_hash='') @ eh' @ CHR ''&'' # (''peer_id='' @ ep') @ CHR ''&'' #
        (''port='' @ int_dec port') @ CHR ''&'' # ''uploaded=0&downloaded=0&left=0&compact=0''" by blast
  have na: "CHR ''&'' \<notin> set eh" "CHR ''&'' \<notin> set eh'" "CHR ''&'' \<notin> set ep" "CHR ''&'' \<notin> set ep'"
    using esc(1) 1(1,2) 2(1,2) by blast+
  let ?r = "\<lambda>ep port. (''peer_id='' @ ep) @ CHR ''&'' #
        (''port='' @ int_dec port) @ CHR ''&'' # ''uploaded=0&downloaded=0&left=0&compact=0''"
  from 1(3) 2(3) have "eh @ CHR ''&'' # ?r ep port = eh' @ CHR ''&'' # ?r ep' port'"
    by (simp only: same_append_eq)
  from split_at_amp [OF na(1,2) this] have eh: "eh = eh'" and r: "?r ep port = ?r ep' port'" by simp_all
  from split_at_amp [OF _ _ r] have ep: "ep = ep'"
    and q: "(''port='' @ int_dec port) @ CHR ''&'' # ''uploaded=0&downloaded=0&left=0&compact=0'' =
      (''port='' @ int_dec port') @ CHR ''&'' # ''uploaded=0&downloaded=0&left=0&compact=0''"
    using na(3,4) by simp_all
  from q have "port = port'" using int_dec_inj by simp
  with eh ep esc(2) 1 2 show ?thesis by blast
qed

text \<open>
  The URL starts with the tracker's, as it was given: the test of \<open>encode\<close> in the same file, which
  expects a scheme, a port and a path to be added, cannot succeed.
\<close>

lemma tracker_encode_prefix:
  "tracker_encode esc t h p port = Inr u \<Longrightarrow> take (length (tracker_url t)) u = tracker_url t"
  by (auto simp: tracker_encode_def append_c_def elim!: and_then_InrE split: option.splits)

lemma encode_test_fails:
  "tracker_encode esc (TrackerConnector True ''www.loushao.net'') h p 27015 \<noteq>
     Inr (''http://www.loushao.net:8080/announce?info_hash='' @ rest)"
  using tracker_encode_prefix [of esc "TrackerConnector True ''www.loushao.net''" h p 27015]
  by (auto simp: TrackerConnector_def)

text \<open>
  The test and its \<open>main\<close>, compiled with \<open>TRACK_TEST\<close>. An assertion ends the test that makes it, and the
  library counts a test that ends there, or by a fault, as failed.
\<close>

definition test_hash :: string where
  "test_hash = ''fhgk3b68xkdjfi3iu8d9''"

definition test_peer_id :: string where
  "test_peer_id = ''hgk3b68xkdjfi3i500d0''"

definition test_expected :: string where
  "test_expected = ''http://www.loushao.net:8080/announce?info_hash=fhgk3b68xkdjfi3iu8d9&peer_id=hgk3b68xkdjfi3i500d0'' @
     ''&port=27015&uploaded=0&downloaded=0&left=0&compact=0''"

definition encode_1 :: "(string \<Rightarrow> string option) \<Rightarrow> (string \<Rightarrow> string list) \<Rightarrow> bool \<Rightarrow> bool res" where
  "encode_1 esc http init_ok =
     (let track = TrackerConnector init_ok ''www.loushao.net'' in
      and_then (tracker_encode esc track test_hash test_peer_id 27015) (\<lambda>encoding.
        if test_expected \<noteq> encoding then Inr False
        else and_then (tracker_request esc http track (Some test_hash) (Some test_peer_id) 27015)
               (\<lambda>_. Inr True)))"

definition ntests_failed :: "bool res list \<Rightarrow> nat" where
  "ntests_failed rs = length (filter (\<lambda>r. r \<noteq> Inr True) rs)"

definition track_test_main :: "(string \<Rightarrow> string option) \<Rightarrow> (string \<Rightarrow> string list) \<Rightarrow> bool \<Rightarrow> int" where
  "track_test_main esc http init_ok =
     (let no_failed = ntests_failed [encode_1 esc http init_ok] in if no_failed = 0 then 0 else 1)"

lemma encode_1_fails: "encode_1 esc http True \<noteq> Inr True"
  using tracker_encode_prefix [of esc "TrackerConnector True ''www.loushao.net''" test_hash test_peer_id 27015]
  by (auto simp: encode_1_def Let_def test_expected_def TrackerConnector_def elim!: and_then_InrE
      split: if_splits)

lemma track_test_main_fails: "track_test_main esc http True = 1"
  using encode_1_fails by (simp add: track_test_main_def ntests_failed_def)

definition plain_esc :: "string \<Rightarrow> string option" where
  "plain_esc s = (if CHR ''&'' \<in> set s then None else Some s)"

lemma plain_esc_laws:
  "\<forall>s e. plain_esc s = Some e \<longrightarrow> CHR ''&'' \<notin> set e"
  "\<forall>s s' e. plain_esc s = Some e \<longrightarrow> plain_esc s' = Some e \<longrightarrow> s = s'"
  by (auto simp: plain_esc_def)

theorem announce_url_injective_witness:
  "tracker_encode plain_esc (TrackerConnector True ''http://t'') (replicate 20 CHR ''h'') (replicate 20 CHR ''p'') 1 \<noteq>
   tracker_encode plain_esc (TrackerConnector True ''http://t'') (replicate 20 CHR ''h'') (replicate 20 CHR ''p'') 2"
proof
  define h where "h = replicate 20 CHR ''h''"
  define p where "p = replicate 20 CHR ''p''"
  define t where "t = TrackerConnector True ''http://t''"
  assume "tracker_encode plain_esc (TrackerConnector True ''http://t'') (replicate 20 CHR ''h'') (replicate 20 CHR ''p'') 1 =
    tracker_encode plain_esc (TrackerConnector True ''http://t'') (replicate 20 CHR ''h'') (replicate 20 CHR ''p'') 2"
  then have eq: "tracker_encode plain_esc t h p 1 = tracker_encode plain_esc t h p 2"
    by (simp only: h_def p_def t_def)
  have "load_n h 0 20 = Inr h" "load_n p 0 20 = Inr p" "plain_esc h = Some h" "plain_esc p = Some p"
    by (simp_all add: load_n_def h_def p_def plain_esc_def)
  then have "\<exists>u. tracker_encode plain_esc t h p 2 = Inr u"
    by (simp add: tracker_encode_def append_c_def)
  then obtain u where u: "tracker_encode plain_esc t h p 2 = Inr u" by blast
  with eq have "tracker_encode plain_esc t h p 1 = Inr u" by simp
  from announce_url_injective [OF plain_esc_laws this u] show False by simp
qed

subsection \<open>Peers of a response\<close>

text \<open>
  What one dictionary of the list stands for: the first three values, whatever the keys of the second and
  third, as long as the first key begins with \<open>ip\<close>. Further entries do not matter. The list is read up to
  the first dictionary that begins with another key.
\<close>

definition node_peer :: "be_node \<Rightarrow> peer option" where
  "node_peer x =
     (case x of
        BE_DICT ((Some k, Some (BE_STR (Some ip))) # (_, Some (BE_STR (Some pid))) # (_, Some (BE_INT port)) # _) \<Rightarrow>
          if take 2 k = ''ip'' then Some \<lparr>peer_ip = c_str ip, peer_peer_id = c_str pid, peer_port = to_int32 (sint port)\<rparr>
          else None
      | _ \<Rightarrow> None)"

definition other_key :: "be_node \<Rightarrow> bool" where
  "other_key x = (case x of BE_DICT ((Some k, _) # _) \<Rightarrow> k \<noteq> [] \<and> take 2 k \<noteq> ''ip'' | _ \<Rightarrow> False)"

lemma c_str_id: "CHR 0x00 \<notin> set s \<Longrightarrow> c_str s = s"
  by (auto simp: c_str_def takeWhile_eq_all_conv)

lemma node_peerE:
  assumes "node_peer x = Some p"
  obtains k ip k2 pid k3 port d where "x = BE_DICT ((Some k, Some (BE_STR (Some ip))) # (k2, Some (BE_STR (Some pid))) #
      (k3, Some (BE_INT port)) # d)" and "take 2 k = ''ip''"
    and "p = \<lparr>peer_ip = c_str ip, peer_peer_id = c_str pid, peer_port = to_int32 (sint port)\<rparr>"
  using assms
  by (auto simp: node_peer_def split: be_node.splits list.splits option.splits if_splits)

lemma parse_peer:
  assumes "node_peer x = Some p"
  shows "parse_list_dict (x # xs) = and_then (parse_list_dict xs) (\<lambda>ps. Inr (p # ps))"
proof -
  from assms obtain k ip k2 pid k3 port d where x: "x = BE_DICT ((Some k, Some (BE_STR (Some ip))) #
      (k2, Some (BE_STR (Some pid))) # (k3, Some (BE_INT port)) # d)" "take 2 k = ''ip''"
    "p = \<lparr>peer_ip = c_str ip, peer_peer_id = c_str pid, peer_port = to_int32 (sint port)\<rparr>" by (rule node_peerE)
  have "2 \<le> length k" using arg_cong [OF x(2), of length] by simp
  with x(2) have "load_n (k @ [CHR 0x00]) 0 2 = Inr ''ip''" by (simp add: load_n_def)
  then show ?thesis
    by (simp add: x(1,3) val_slots_def slot_key_def slot_val_def val_s_def val_i_def)
qed

lemma parse_other_key:
  assumes "other_key x"
  shows "parse_list_dict (x # xs) = Inr []"
proof -
  obtain c k p d where x: "x = BE_DICT ((Some (c # k), p) # d)" "take 2 (c # k) \<noteq> ''ip''"
    using assms by (auto simp: other_key_def neq_Nil_conv split: be_node.splits list.splits option.splits)
  have "load_n ((c # k) @ [CHR 0x00]) 0 2 = Inr (take 2 ((c # k) @ [CHR 0x00]))" by (simp add: load_n_def)
  moreover have "take 2 ((c # k) @ [CHR 0x00]) \<noteq> ''ip''" using x(2) by (cases k) auto
  ultimately show ?thesis by (simp add: x(1) val_slots_def slot_key_def)
qed

lemma parse_list_dict_nodes:
  "map node_peer xs = map Some ps \<Longrightarrow> rest = [] \<or> other_key (hd rest) \<Longrightarrow> parse_list_dict (xs @ rest) = Inr ps"
proof (induction xs arbitrary: ps)
  case Nil
  then show ?case using parse_other_key [of "hd rest" "tl rest"] by (cases rest) auto
next
  case (Cons x xs)
  then obtain p ps' where "ps = p # ps'" "node_peer x = Some p" "map node_peer xs = map Some ps'" by (cases ps) auto
  with Cons.IH [of ps'] Cons.prems(2) show ?case using parse_peer [of x p "xs @ rest"] by simp
qed

lemma read_peers_skip:
  "list_all (\<lambda>(k, x). case k of None \<Rightarrow> False | Some s \<Rightarrow> c_str s \<noteq> ''peers'') d \<Longrightarrow> read_peers (d @ e) t = read_peers e t"
proof (induction d)
  case (Cons x d)
  then show ?case by (cases x) (auto simp: key_is_def split: option.splits)
qed simp

text \<open>A response that arrives in one piece and fits the buffer is decoded as the text it starts with.\<close>

lemma request_run:
  assumes "tracker_curl t" and "tracker_encode esc t h p port = Inr u" and "http u = [syn_text y @ extra]"
    and "syn_valid m y" and "m < 2 ^ 63" and "dicts_filled y" and "CHR 0x00 \<notin> set (syn_text y)"
    and "length (syn_text y @ extra) < response_size"
  shows "tracker_request esc http t (Some h) (Some p) port =
    and_then (val_d (syn_node y)) (\<lambda>d. and_then (read_peers d t) (\<lambda>t. Inr (0, t)))"
proof -
  let ?m = "response_size - length (syn_text y @ extra)"
  let ?r = "syn_text y @ extra @ replicate ?m CHR 0x00"
  have "write_callback (replicate response_size CHR 0x00) (syn_text y @ extra) = Inr ?r"
    using assms(8) by (simp add: write_callback_def store_n_def)
  moreover have "c_str ?r = syn_text y @ c_str (extra @ replicate ?m CHR 0x00)"
    unfolding c_str_def by (rule takeWhile_append2) (use assms(7) in auto)
  then have "int (length (syn_text y)) \<le> int (length (c_str ?r))" by simp
  from be_decoden_syn [OF assms(4,5) this] assms(6,8) have "be_decode ?r = Inr (Some (syn_node y))"
    by (simp add: be_decode_def)
  ultimately show ?thesis
    using assms(1-3) by (simp add: tracker_request_def transfer_def deref_node_def)
qed

text \<open>C21: once libcurl is initialised, the client takes the peers from a response that arrives in one chunk shorter
  than the buffer: any valid bencoded text without zero bytes and empty dictionaries, whatever follows it,
  that is a dictionary with a list under \<open>peers\<close> and any other entries. Each dictionary of the list counts
  as a peer by the position of its values: an address first, under a key that begins with \<open>ip\<close>, then an id,
  then a port. The peers are taken in order, up to the first dictionary that begins with another key.\<close>

theorem request_collects_peers:
  assumes "tracker_curl t" and "tracker_encode esc t h p port = Inr u" and "http u = [syn_text y @ extra]"
    and "y = SDict (es1 @ ((kp, ''peers''), SList (ys @ zs)) # es2)"
    and "syn_valid m y" and "m < 2 ^ 63" and "dicts_filled y" and "CHR 0x00 \<notin> set (syn_text y)"
    and "length (syn_text y @ extra) < response_size"
    and "list_all (\<lambda>(k, x). c_str (snd k) \<noteq> ''peers'') (es1 @ es2)"
    and "map (\<lambda>y. node_peer (syn_node y)) ys = map Some ps" and "zs = [] \<or> other_key (syn_node (hd zs))"
  shows "tracker_request esc http t (Some h) (Some p) port = Inr (0, t\<lparr>tracker_peers := ps\<rparr>)"
proof -
  let ?d = "\<lambda>es :: syn_entry list. map (\<lambda>e. (Some (snd (fst e)), syn_node (snd e))) es"
  have live: "live (map (\<lambda>e. (Some (snd (fst e)), Some (syn_node (snd e)))) es) = ?d es" for es :: "syn_entry list"
    by (induction es) (simp_all add: live_def)
  have d: "val_d (syn_node y) = Inr (?d es1 @ (Some ''peers'', BE_LIST (map syn_node (ys @ zs))) # ?d es2)"
    using live [of "es1 @ ((kp, ''peers''), SList (ys @ zs)) # es2"] by (simp add: assms(4) val_d_def)
  have skip: "list_all (\<lambda>(k, x). case k of None \<Rightarrow> False | Some s \<Rightarrow> c_str s \<noteq> ''peers'') (?d es)"
    if "list_all (\<lambda>(k, x). c_str (snd k) \<noteq> ''peers'') es" for es
    using that by (induction es) auto
  have l: "parse_list_dict (map syn_node (ys @ zs)) = Inr ps"
    using parse_list_dict_nodes [of "map syn_node ys" ps "map syn_node zs"] assms(11,12)
    by (cases zs) (simp_all add: comp_def)
  have "read_peers (?d es2) t' = Inr t'" for t'
    using read_peers_skip [OF skip [of es2], of "[]" t'] assms(10) by simp
  then have "read_peers (?d es1 @ (Some ''peers'', BE_LIST (map syn_node (ys @ zs))) # ?d es2) t = Inr (t\<lparr>tracker_peers := ps\<rparr>)"
    using read_peers_skip [OF skip [of es1], of "(Some ''peers'', BE_LIST (map syn_node (ys @ zs))) # ?d es2" t] assms(10) l
    by (simp add: key_is_def c_str_def val_l_def)
  with d show ?thesis using request_run [of t esc h p port u http y extra m, OF assms(1-3,5-9)] by simp
qed

text \<open>Responses that the client understands.\<close>

definition sample_response :: "syn list \<Rightarrow> syn" where
  "sample_response ys = SDict [((''8'', ''interval''), SInt [] ''60''), ((''5'', ''peers''), SList ys)]"

definition sample_peer_syn :: syn where
  "sample_peer_syn = SDict [((''2'', ''ip''), SStr ''8'' ''10.0.0.1''), ((''7'', ''peer id''), SStr ''3'' ''abc''),
     ((''4'', ''port''), SInt [] ''6881'')]"

definition sample_peer :: peer where
  "sample_peer = \<lparr>peer_ip = ''10.0.0.1'', peer_peer_id = ''abc'', peer_port = 6881\<rparr>"

lemma sample_response_text:
  "syn_text (sample_response []) = ''d8:intervali60e5:peerslee''"
  "syn_text (sample_response [sample_peer_syn]) =
     ''d8:intervali60e5:peersld2:ip8:10.0.0.17:peer id3:abc4:porti6881eeee''"
  by (simp_all add: sample_response_def sample_peer_syn_def key_text_def)

lemma sample_response_ok:
  "syn_valid 99 (sample_response [])" "dicts_filled (sample_response [])"
  "syn_valid 99 (sample_response [sample_peer_syn])" "dicts_filled (sample_response [sample_peer_syn])"
  by (simp_all add: sample_response_def sample_peer_syn_def unpadded_def key_valid_def is_digit_def dec_value_def digit_value_def)

lemma sample_node_peer: "node_peer (syn_node sample_peer_syn) = Some sample_peer"
  by (simp add: sample_peer_syn_def sample_peer_def node_peer_def int_value_def dec_value_def digit_value_def
      LLONG_MAX_def LLONG_MIN_def c_str_def to_int32_id)

theorem request_collects_peers_witness:
  "\<exists>t'. tracker_request plain_esc (\<lambda>u. [syn_text (sample_response [sample_peer_syn]) @ ''\<newline>''])
      (TrackerConnector True ''http://t'') (Some (replicate 20 CHR ''h'')) (Some (replicate 20 CHR ''p'')) 1 = Inr (0, t') \<and>
    get_peers t' = [sample_peer]"
proof -
  define h where "h = replicate 20 CHR ''h''"
  define p where "p = replicate 20 CHR ''p''"
  have "load_n h 0 20 = Inr h" "load_n p 0 20 = Inr p" "plain_esc h = Some h" "plain_esc p = Some p"
    by (simp_all add: load_n_def h_def p_def plain_esc_def)
  then have "\<exists>u. tracker_encode plain_esc (TrackerConnector True ''http://t'') h p 1 = Inr u"
    by (simp add: tracker_encode_def append_c_def)
  then obtain u where u: "tracker_encode plain_esc (TrackerConnector True ''http://t'') h p 1 = Inr u" ..
  have "tracker_request plain_esc (\<lambda>u. [syn_text (sample_response [sample_peer_syn]) @ ''\<newline>''])
      (TrackerConnector True ''http://t'') (Some h) (Some p) 1 =
    Inr (0, (TrackerConnector True ''http://t'')\<lparr>tracker_peers := [sample_peer]\<rparr>)"
    by (rule request_collects_peers [where m = 99 and ?es1.0 = "[((''8'', ''interval''), SInt [] ''60'')]" and kp = "''5''"
          and ys = "[sample_peer_syn]" and zs = "[]" and ?es2.0 = "[]", OF _ u refl])
      (simp_all add: sample_response_text sample_response_ok response_size_def sample_node_peer TrackerConnector_def c_str_def,
        simp add: sample_response_def)
  then show ?thesis by (simp add: get_peers_def h_def p_def)
qed

text \<open>Chunks are not appended: the second chunk of a response overwrites the first from its
  start, and a chunk longer than the buffer is written past its end.\<close>

lemma chunks_overwrite:
  "receive_chunks (replicate response_size CHR 0x00) [a, b] =
     (if length a \<le> response_size \<and> length b \<le> response_size
      then Inr (b @ drop (length b) (a @ replicate (response_size - length a) CHR 0x00))
      else Inl OutOfBounds)"
  by (auto simp: write_callback_def store_n_def)

text \<open>A transfer that delivers nothing (a failed request is not distinguished from one, nor is a failed
  initialisation) makes the client dereference the null pointer the decoder returns.\<close>

lemma failed_transfer_faults:
  assumes "tracker_encode esc t h p port = Inr u" and "http u = [] \<or> \<not> tracker_curl t"
  shows "tracker_request esc http t (Some h) (Some p) port = Inl NullDeref"
proof -
  obtain k where k: "replicate response_size CHR 0x00 = CHR 0x00 # replicate k CHR 0x00"
    by (rule that [of 9999]) (simp add: response_size_def flip: replicate_Suc)
  have "be_decoden (CHR 0x00 # replicate k CHR 0x00) 0 = and_then (Inr (None, CHR 0x00 # replicate k CHR 0x00, 0 :: int))
      (\<lambda>(p, cur). Inr p)"
    by (rule be_decoden_run) simp
  then have "be_decode (CHR 0x00 # replicate k CHR 0x00) = Inr None"
    by (simp add: be_decode_def c_str_def)
  then show ?thesis
    using assms by (auto simp: tracker_request_def transfer_def k deref_node_def)
qed

end
