(* ===== verification/MetafileReader.thy ===== *)
theory MetafileReader
  imports Tracker
begin

text \<open>
  The metafile reader (\<open>read_metafile.cpp\<close>). It decodes the file with the C bencode library,
  copies the fields it knows, re-encodes the \<open>info\<close> dictionary into a buffer whose size it
  computes from the raw text, and hashes that buffer. Parameters: \<open>sha1\<close> is OpenSSL's
  \<open>SHA1\<close>, \<open>garbage\<close> the bytes of a fresh heap buffer, \<open>uninit\<close> the object \<open>meta\<close> before any
  field is assigned (five of its fields have no initialiser; \<open>i\<close> and \<open>j\<close> are loop counters that are
  members of the class).
\<close>

record metafile =
  announce :: string
  comment :: string
  created_by :: string
  meta_encoding :: string
  meta_name :: string
  md5sum :: string
  announce_list :: "string list list"
  files :: "(string \<rightharpoonup> string) list"
  pieces :: "string list"
  creation_date :: int32
  member_i :: int32
  member_j :: int32
  piece_length :: int32
  private_field :: int32
  meta_length :: int32
  info_hash :: mem

definition metafile_init :: "int32 \<Rightarrow> int32 \<Rightarrow> int32 \<Rightarrow> int32 \<Rightarrow> mem \<Rightarrow> metafile" where
  "metafile_init i j pl len hash =
     \<lparr>announce = [], comment = [], created_by = [], meta_encoding = [], meta_name = [], md5sum = [],
      announce_list = [], files = [], pieces = [], creation_date = 0, member_i = i, member_j = j,
      piece_length = pl, private_field = 0, meta_length = len, info_hash = hash\<rparr>"

text \<open>
  A node's string as \<open>const char *\<close>, handed to the constructor of \<open>std::string\<close>, which throws for a null
  pointer, or assigned or appended to a string, which dereferences it; and \<open>unsigned\<close> of its integer.
\<close>

definition node_assign :: "be_node \<Rightarrow> string res" where
  "node_assign x = and_then (val_s x) (\<lambda>s. Inr (c_str s))"

definition node_string :: "be_node \<Rightarrow> string res" where
  "node_string x = (case x of BE_STR None \<Rightarrow> Inl StdException | _ \<Rightarrow> node_assign x)"

lemma node_text [simp]:
  "node_assign (BE_STR (Some s)) = Inr (c_str s)"
  "node_string (BE_STR (Some s)) = Inr (c_str s)"
  by (simp_all add: node_string_def node_assign_def val_s_def)

definition node_unsigned :: "be_node \<Rightarrow> int32 res" where
  "node_unsigned x = and_then (val_i x) (\<lambda>i. Inr (ucast i))"

subsection \<open>Announce list and files\<close>

fun node_strings :: "be_node list \<Rightarrow> string list res" where
  "node_strings [] = Inr []"
| "node_strings (x # xs) =
     and_then (node_string x) (\<lambda>s. and_then (node_strings xs) (\<lambda>ss. Inr (s # ss)))"

fun parse_list_list :: "be_node list \<Rightarrow> string list list res" where
  "parse_list_list [] = Inr []"
| "parse_list_list (x # xs) =
     and_then (val_l x) (\<lambda>ys.
     and_then (node_strings ys) (\<lambda>l.
     and_then (parse_list_list xs) (\<lambda>ls. Inr (l # ls))))"

text \<open>The loop over a path: every component followed by a slash, then the last byte removed.\<close>

fun join_path :: "be_node list \<Rightarrow> string \<Rightarrow> string res" where
  "join_path [] path = Inr path"
| "join_path (x # xs) path = and_then (node_assign x) (\<lambda>s. join_path xs (path @ s @ ''/''))"

definition pop_back :: "string \<Rightarrow> string res" where
  "pop_back s = (if s = [] then Inl OutOfBounds else Inr (butlast s))"

fun parse_file :: "(string option \<times> be_node) list \<Rightarrow> (string \<rightharpoonup> string) \<Rightarrow> (string \<rightharpoonup> string) res" where
  "parse_file [] dict = Inr dict"
| "parse_file ((k, x) # d) dict =
     and_then (key_is k ''length'') (\<lambda>is_length.
     and_then (key_is k ''md5sum'') (\<lambda>is_md5sum.
     and_then (key_is k ''md5'') (\<lambda>is_md5.
     and_then (key_is k ''path'') (\<lambda>is_path.
     and_then
       (if is_length then and_then (val_i x) (\<lambda>i. Inr (dict(''length'' \<mapsto> int_dec (sint i))))
        else if is_md5sum \<or> is_md5 then and_then (node_assign x) (\<lambda>s. Inr (dict(''md5sum'' \<mapsto> s)))
        else if is_path then
          and_then (val_l x) (\<lambda>xs. and_then (join_path xs []) (\<lambda>path.
          and_then (pop_back path) (\<lambda>path. Inr (dict(''path'' \<mapsto> path)))))
        else Inr dict)
       (\<lambda>dict. parse_file d dict)))))"

fun parse_dict :: "be_node list \<Rightarrow> (string \<rightharpoonup> string) list res" where
  "parse_dict [] = Inr []"
| "parse_dict (x # xs) =
     and_then (val_d x) (\<lambda>d.
     and_then (parse_file d Map.empty) (\<lambda>dict.
     and_then (parse_dict xs) (\<lambda>list_dict. Inr (dict # list_dict))))"

subsection \<open>Positions in the raw text\<close>

definition npos :: nat where
  "npos = 2 ^ 64 - 1"

fun find_from :: "nat \<Rightarrow> string \<Rightarrow> string \<Rightarrow> nat" where
  "find_from i pat [] = (if pat = [] then i else npos)"
| "find_from i pat (c # s) = (if take (length pat) (c # s) = pat then i else find_from (Suc i) pat s)"

definition string_find :: "string \<Rightarrow> string \<Rightarrow> nat" where
  "string_find s pat = find_from 0 pat s"

text \<open>\<open>atoi(&memblock[pos])\<close>, as \<open>strtol\<close> converted to \<open>int\<close>.\<close>

definition atoi_at :: "string \<Rightarrow> nat \<Rightarrow> int res" where
  "atoi_at memblock pos = and_then (strtoll (drop pos memblock)) (\<lambda>(v, n). Inr (to_int32 (sint v)))"

text \<open>
  \<open>assign_n\<close> is \<open>std::string::assign(memblock, fsize)\<close>. The computation of \<open>info_size\<close>: positions are \<open>size_t\<close>, \<open>info_position\<close> and \<open>pieces_size\<close> are
  \<open>int\<close> (adding 4 may overflow it), and the sum is converted back to \<open>int\<close>. \<open>size\<close> is the current value of the variable
  that held the file's size.
\<close>

definition assign_n :: "string \<Rightarrow> int \<Rightarrow> string res" where
  "assign_n memblock fsize =
     (if fsize < 0 then Inl StdException
      else if length memblock < nat fsize then Inl OutOfBounds
      else Inr (take (nat fsize) memblock))"

definition pieces_position :: "string \<Rightarrow> nat" where
  "pieces_position s = (string_find s ''pieces'' + 6) mod 2 ^ 64"

definition info_size_of :: "string \<Rightarrow> int \<Rightarrow> int res" where
  "info_size_of memblock fsize =
     and_then (assign_n memblock fsize) (\<lambda>s.
       let info_pos = string_find s ''info'';
           pieces_pos = pieces_position s
       in and_then (atoi_at memblock pieces_pos) (\<lambda>pieces_size.
          let info_position = to_int32 (int info_pos) + 4
          in if 2 ^ 31 \<le> info_position then Inl SignedOverflow
             else Inr (to_int32 (int pieces_pos - info_position + pieces_size + 7))))"

text \<open>Encoding the \<open>info\<close> value into a fresh buffer and hashing the whole buffer.\<close>

definition hash_info ::
  "(string \<Rightarrow> mem) \<Rightarrow> (nat \<Rightarrow> string) \<Rightarrow> be_node \<Rightarrow> int \<Rightarrow> mem res" where
  "hash_info sha1 garbage x info_size =
     (if info_size < 0 then Inl StdException
      else and_then (be_encode x (Some (garbage (nat info_size))) 0 (nat info_size)) (\<lambda>(r, outBuf).
           Inr (sha1 (the outBuf))))"

subsection \<open>The info dictionary\<close>

text \<open>The loop that copies \<open>n\<close> hashes, the \<open>k\<close>-th from offset \<open>20 * k\<close> of the string.\<close>

fun copy_hashes :: "string \<Rightarrow> nat \<Rightarrow> nat \<Rightarrow> string list res" where
  "copy_hashes s k 0 = Inr []"
| "copy_hashes s k (Suc n) =
     and_then (load_n s (k * 20) 20) (\<lambda>sha.
     and_then (copy_hashes s (Suc k) n) (\<lambda>hs. Inr (sha # hs)))"

fun parse_info ::
  "string \<Rightarrow> (string option \<times> be_node) list \<Rightarrow> int \<Rightarrow> metafile \<Rightarrow> (int \<times> metafile) res" where
  "parse_info memblock [] fsize meta = Inr (fsize, meta)"
| "parse_info memblock ((k, x) # d) fsize meta =
     and_then (case k of None \<Rightarrow> Inl NullDeref | Some s \<Rightarrow> Inr (c_str s)) (\<lambda>key.
     and_then
       (if key = ''piece length'' then
          and_then (node_unsigned x) (\<lambda>v. Inr (fsize, meta\<lparr>piece_length := v\<rparr>))
        else if key = ''pieces'' then
          and_then (assign_n memblock fsize) (\<lambda>s.
          and_then (atoi_at memblock (pieces_position s)) (\<lambda>fsize.
          and_then (if fsize div 20 \<le> 0 then Inr [] else and_then (val_s x) (\<lambda>s.
              copy_hashes (s @ [CHR 0x00]) 0 (nat (fsize div 20)))) (\<lambda>hs.
            Inr (fsize, meta\<lparr>pieces := pieces meta @ hs\<rparr>))))
        else if key = ''private'' then
          and_then (node_unsigned x) (\<lambda>v. Inr (fsize, meta\<lparr>private_field := v\<rparr>))
        else if key = ''name'' then
          and_then (node_assign x) (\<lambda>s. Inr (fsize, meta\<lparr>meta_name := s\<rparr>))
        else if key = ''length'' then
          and_then (node_unsigned x) (\<lambda>v. Inr (fsize, meta\<lparr>meta_length := v\<rparr>))
        else if key = ''files'' then
          and_then (val_l x) (\<lambda>xs. and_then (parse_dict xs) (\<lambda>fs. Inr (fsize, meta\<lparr>files := fs\<rparr>)))
        else if key = ''md5sum'' then
          and_then (node_assign x) (\<lambda>s. Inr (fsize, meta\<lparr>md5sum := s\<rparr>))
        else Inr (fsize, meta))
       (\<lambda>(fsize, meta). parse_info memblock d fsize meta))"

subsection \<open>The top-level dictionary\<close>

fun parse_top ::
  "(string \<Rightarrow> mem) \<Rightarrow> (nat \<Rightarrow> string) \<Rightarrow> string \<Rightarrow> (string option \<times> be_node) list \<Rightarrow>
     int \<Rightarrow> metafile \<Rightarrow> metafile res" where
  "parse_top sha1 garbage memblock [] fsize meta = Inr meta"
| "parse_top sha1 garbage memblock ((k, x) # d) fsize meta =
     and_then (case k of None \<Rightarrow> Inl NullDeref | Some s \<Rightarrow> Inr (c_str s)) (\<lambda>key.
     and_then
       (if key = ''announce'' then
          and_then (node_string x) (\<lambda>s. Inr (fsize, meta\<lparr>announce := s\<rparr>))
        else if key = ''announce-list'' then
          and_then (val_l x) (\<lambda>xs. and_then (parse_list_list xs) (\<lambda>ls.
            Inr (fsize, meta\<lparr>announce_list := ls\<rparr>)))
        else if key = ''creation date'' then
          and_then (node_unsigned x) (\<lambda>v. Inr (fsize, meta\<lparr>creation_date := v\<rparr>))
        else if key = ''created by'' then
          and_then (node_string x) (\<lambda>s. Inr (fsize, meta\<lparr>created_by := s\<rparr>))
        else if key = ''comment'' then
          and_then (node_string x) (\<lambda>s. Inr (fsize, meta\<lparr>comment := s\<rparr>))
        else if key = ''encoding'' then
          and_then (node_string x) (\<lambda>s. Inr (fsize, meta\<lparr>meta_encoding := s\<rparr>))
        else if key = ''info'' then
          and_then (info_size_of memblock fsize) (\<lambda>info_size.
          and_then (hash_info sha1 garbage x info_size) (\<lambda>h.
          and_then (val_d x) (\<lambda>info. parse_info memblock info fsize (meta\<lparr>info_hash := h\<rparr>))))
        else Inr (fsize, meta))
       (\<lambda>(fsize, meta). parse_top sha1 garbage memblock d fsize meta))"

text \<open>\<open>content\<close> is what the file holds; \<open>None\<close> when it cannot be opened (its size is then -1).\<close>

definition create_metafile ::
  "(string \<Rightarrow> mem) \<Rightarrow> (nat \<Rightarrow> string) \<Rightarrow> metafile \<Rightarrow> string option \<Rightarrow> metafile res" where
  "create_metafile sha1 garbage uninit content =
     (case content of
        None \<Rightarrow> Inl StdException
      | Some memblock \<Rightarrow>
          and_then (be_decoden memblock (int (length memblock))) (\<lambda>n.
          and_then (and_then (deref_node n) val_d) (\<lambda>d.
            parse_top sha1 garbage memblock d (int (length memblock)) uninit)))"

text \<open>The first occurrence found at the end of a prefix is the first occurrence of the whole.\<close>

lemma find_from_prefix:
  "find_from i pat (s @ pat) = i + length s \<Longrightarrow> find_from i pat (s @ pat @ t) = i + length s"
proof (induction s arbitrary: i)
  case Nil
  then show ?case by (cases pat; cases t) simp_all
next
  case (Cons c s)
  have "take (length pat) ((c # s @ pat) @ t) = take (length pat) (c # s @ pat)"
    by (subst take_append) simp
  with Cons show ?case by (auto split: if_splits)
qed

lemma string_find_prefix:
  "string_find (s @ pat) pat = length s \<Longrightarrow> string_find (s @ pat @ t) pat = length s"
  using find_from_prefix [of 0 pat s t] by (simp add: string_find_def)

lemma find_from_le: "find_from i pat (a @ pat @ b) \<le> i + length a"
proof (induction a arbitrary: i)
  case Nil
  have "take (length pat) (pat @ b) = pat" by simp
  then show ?case by (cases "pat @ b") auto
next
  case (Cons c a)
  from Cons.IH [of "Suc i"] show ?case by simp
qed

lemma string_find_le: "string_find (a @ pat @ b) pat \<le> length a"
  using find_from_le [of 0 pat a b] by (simp add: string_find_def)

subsection \<open>The hash of the info dictionary\<close>

lemma assign_n_all [simp]: "assign_n memblock (int (length memblock)) = Inr memblock"
  by (simp add: assign_n_def)

lemma atoi_at_nat_dec:
  assumes "drop pos s = nat_dec n @ CHR '':'' # r" and "n < 2 ^ 31"
  shows "atoi_at s pos = Inr (int n)"
  using strtoll_nat_dec [of n "CHR '':'' # r"] assms
  by (simp add: atoi_at_def is_digit_def sint64_of_nat to_int32_id)

text \<open>
  A file in which the text of the \<open>info\<close> dictionary follows the first occurrence of \<open>info\<close>, and in
  which the first occurrence of \<open>pieces\<close> is the key of that dictionary's last entry, a string \<open>P\<close>.
\<close>

definition info_last ::
  "string \<Rightarrow> string \<Rightarrow> be_node \<Rightarrow> string \<Rightarrow> string \<Rightarrow> bool" where
  "info_last memblock pre x body P \<longleftrightarrow>
     (\<exists>rest. memblock = pre @ ''info'' @ be_text x @ rest) \<and>
     be_text x = body @ ''pieces'' @ nat_dec (length P) @ '':'' @ P @ ''e'' \<and>
     string_find memblock ''info'' = length pre \<and>
     string_find memblock ''pieces'' = length pre + 4 + length body \<and>
     length memblock < 2 ^ 31"

lemma pieces_at:
  assumes "info_last memblock pre x body P"
  shows "pieces_position memblock = length pre + 4 + length body + 6"
    and "atoi_at memblock (pieces_position memblock) = Inr (int (length P))"
proof -
  obtain rest where m: "memblock = pre @ ''info'' @ body @ ''pieces'' @ nat_dec (length P) @ CHR '':'' # P @ ''e'' @ rest"
    and f: "string_find memblock ''pieces'' = length pre + 4 + length body" and len: "length memblock < 2 ^ 31"
    using assms by (auto simp: info_last_def)
  show pos: "pieces_position memblock = length pre + 4 + length body + 6"
    using len unfolding pieces_position_def f by (simp add: m)
  have n: "length P < 2 ^ 31" using len by (simp add: m)
  have m6: "memblock = (pre @ ''info'' @ body @ ''pieces'') @ nat_dec (length P) @ CHR '':'' # P @ ''e'' @ rest"
    by (simp add: m)
  have l: "length pre + 4 + length body + 6 = length (pre @ ''info'' @ body @ ''pieces'')" by simp
  have "drop (length (pre @ ''info'' @ body @ ''pieces'')) memblock = nat_dec (length P) @ CHR '':'' # P @ ''e'' @ rest"
    by (subst m6) (rule take_drop_append_id(2), rule refl)
  then have "drop (pieces_position memblock) memblock = nat_dec (length P) @ CHR '':'' # P @ ''e'' @ rest"
    by (simp only: pos l)
  from atoi_at_nat_dec [OF this n]
  show "atoi_at memblock (pieces_position memblock) = Inr (int (length P))" .
qed

lemma info_size_value:
  assumes "info_last memblock pre x body P"
  shows "info_size_of memblock (int (length memblock)) =
    Inr (int (length (be_text x)) + 5 - int (length (nat_dec (length P))))"
proof -
  from assms have f: "string_find memblock ''info'' = length pre"
    and t: "be_text x = body @ ''pieces'' @ nat_dec (length P) @ '':'' @ P @ ''e''"
    and len: "length memblock < 2 ^ 31" "length memblock \<ge> length pre + 4 + length (be_text x)"
    by (auto simp: info_last_def)
  have "to_int32 (int (length pre)) = int (length pre)" "int (length pre) + 4 < 2 ^ 31"
    using len by (auto intro: to_int32_id)
  moreover have "to_int32 (int (length body) + 6 + int (length P) + 7) = int (length body) + 6 + int (length P) + 7"
  proof (rule to_int32_id)
    obtain c cs where "nat_dec (length P) = c # cs" by (cases "nat_dec (length P)") auto
    with len t show "int (length body) + 6 + int (length P) + 7 < 2 ^ 31" by auto
  qed simp
  ultimately show ?thesis
    using pieces_at [OF assms] by (simp add: info_size_of_def f Let_def t)
qed

subsection \<open>A file with one torrent\<close>

definition torrent_info :: "int64 \<Rightarrow> string \<Rightarrow> int64 \<Rightarrow> string \<Rightarrow> be_node" where
  "torrent_info ln nm pl P = BE_DICT
     [(Some ''length'', Some (BE_INT ln)), (Some ''name'', Some (BE_STR (Some nm))),
      (Some ''piece length'', Some (BE_INT pl)), (Some ''pieces'', Some (BE_STR (Some P)))]"

definition torrent_file :: "string \<Rightarrow> be_node \<Rightarrow> be_node" where
  "torrent_file ann info = BE_DICT
     [(Some ''announce'', Some (BE_STR (Some ann))), (Some ''info'', Some info)]"

text \<open>A sample file with 500 pieces.\<close>

definition sample_pieces :: string where
  "sample_pieces = replicate 10000 CHR ''x''"

definition sample_info :: be_node where
  "sample_info = torrent_info 100 ''f'' 50 sample_pieces"

lemma sample_pieces_length: "length sample_pieces = 10000"
  by (simp add: sample_pieces_def)

lemma sample_info_text:
  "be_text sample_info =
     ''d6:lengthi100e4:name1:f12:piece lengthi50e6:'' @ ''pieces'' @ nat_dec (length sample_pieces) @ '':'' @ sample_pieces @ ''e''"
proof -
  have "benc_str ''length'' = ''6:length''" "benc_str ''name'' = ''4:name''" "benc_str ''f'' = ''1:f''"
    "benc_str ''piece length'' = ''12:piece length''" "benc_str ''pieces'' = ''6:pieces''"
    "nat_dec 100 = ''100''" "nat_dec 50 = ''50''"
    by code_simp+
  then show ?thesis
    by (simp add: sample_info_def torrent_info_def benc_int_def int_dec_def benc_str_def [of sample_pieces])
qed

lemma torrent_t_text:
  "be_text (torrent_file ''t'' info) = ''d8:announce1:t4:'' @ ''info'' @ be_text info @ ''e''"
proof -
  have "benc_str ''announce'' = ''8:announce''" "benc_str ''t'' = ''1:t''" "benc_str ''info'' = ''4:info''"
    by code_simp+
  then show ?thesis by (simp add: torrent_file_def)
qed

lemma info_lastI:
  assumes "be_text x = body @ ''pieces'' @ nat_dec (length P) @ '':'' @ P @ ''e''"
    and "m = pre @ ''info'' @ be_text x @ rest" and "length m < 2 ^ 31"
    and "string_find (pre @ ''info'') ''info'' = length pre"
    and "string_find ((pre @ ''info'' @ body) @ ''pieces'') ''pieces'' = length (pre @ ''info'' @ body)"
  shows "info_last m pre x body P"
proof -
  have "string_find m ''info'' = length pre"
    using string_find_prefix [OF assms(4), of "be_text x @ rest"] by (simp only: assms(2) append_assoc)
  moreover have "string_find m ''pieces'' = length pre + 4 + length body"
    using string_find_prefix [OF assms(5), of "nat_dec (length P) @ '':'' @ P @ ''e'' @ rest"]
    by (simp add: assms(1,2))
  ultimately show ?thesis unfolding info_last_def using assms(1-3) by (simp del: append_Cons)
qed

lemma sample_pieces_dec: "length (nat_dec 10000) \<le> 5"
  by (subst nat_dec_length) simp_all

lemma sample_info_last:
  "info_last (be_text (torrent_file ''t'' sample_info)) ''d8:announce1:t4:'' sample_info
     ''d6:lengthi100e4:name1:f12:piece lengthi50e6:'' sample_pieces"
proof (rule info_lastI [OF sample_info_text])
  show "be_text (torrent_file ''t'' sample_info) =
      ''d8:announce1:t4:'' @ ''info'' @ be_text sample_info @ ''e''"
    by (rule torrent_t_text)
  show "length (be_text (torrent_file ''t'' sample_info)) < 2 ^ 31"
    using sample_pieces_dec by (simp add: torrent_t_text sample_info_text sample_pieces_length)
qed code_simp+

text \<open>Encoding into a buffer of any size: a text that does not fit leaves the buffer half written.\<close>

lemma hash_info_run:
  assumes "be_full x" and "length (be_text x) < 2 ^ 31" and "\<forall>n. length (garbage n) = n"
  shows "\<exists>h. hash_info sha1 garbage x (int n) = Inr (sha1 h) \<and> length h = n \<and>
    (length (be_text x) \<le> n \<longrightarrow> h = be_text x @ drop (length (be_text x)) (garbage n))"
proof -
  let ?t = "be_text x"
  have g: "length (garbage n) = n" using assms(3) by simp
  from be_encode_text [OF assms(1)] assms(2)
  have w: "wrote (int (length ?t)) ?t (garbage n) 0 n (be_encode x (Some (garbage n)) 0 n)"
    by (simp add: encodes_def g)
  show ?thesis
  proof (cases "length ?t \<le> n")
    case True
    with w g show ?thesis by (simp add: hash_info_def wrote_def)
  next
    case False
    with w obtain m' where "be_encode x (Some (garbage n)) 0 n = Inr (- 1, Some m')" "length m' = n"
      by (auto simp: wrote_def g)
    with False show ?thesis by (intro exI [of _ m']) (simp add: hash_info_def)
  qed
qed

lemma info_hash_run:
  fixes P :: string
  assumes "info_last memblock pre x body P" and "be_full x" and "\<forall>n. length (garbage n) = n"
  shows "let t = be_text x; n = length t + 5 - length (nat_dec (length P)) in
    \<exists>h. info_size_of memblock (int (length memblock)) = Inr (int n) \<and>
      hash_info sha1 garbage x (int n) = Inr (sha1 h) \<and> length h = n \<and>
      (length P < 10 ^ 5 \<longrightarrow> h = t @ drop (length t) (garbage n)) \<and>
      (h = t \<longleftrightarrow> 10 ^ 4 \<le> length P \<and> length P < 10 ^ 5)"
proof -
  let ?t = "be_text x" and ?d = "length (nat_dec (length P))"
  let ?n = "length ?t + 5 - ?d"
  have d: "?d \<le> 5 \<longleftrightarrow> length P < 10 ^ 5" "?d \<le> 4 \<longleftrightarrow> length P < 10 ^ 4"
    by (rule nat_dec_length; simp)+
  have t: "length ?t < 2 ^ 31" "?d \<le> length ?t"
    using assms(1) by (auto simp: info_last_def)
  have sz: "info_size_of memblock (int (length memblock)) = Inr (int ?n)"
    using info_size_value [OF assms(1)] t by (simp add: of_nat_diff)
  obtain h where h: "hash_info sha1 garbage x (int ?n) = Inr (sha1 h)" "length h = ?n"
    "length ?t \<le> ?n \<longrightarrow> h = ?t @ drop (length ?t) (garbage ?n)"
    using hash_info_run [OF assms(2) t(1) assms(3)] by blast
  have five: "length ?t \<le> ?n \<longleftrightarrow> ?d \<le> 5" "?n = length ?t \<longleftrightarrow> ?d \<le> 5 \<and> \<not> ?d \<le> 4" using t(2) by linarith+
  have "h = ?t \<longleftrightarrow> ?n = length ?t"
  proof
    assume "?n = length ?t"
    with h(2,3) assms(3) show "h = ?t" by simp
  qed (use h(2) in simp)
  then have "h = ?t \<longleftrightarrow> 10 ^ 4 \<le> length P \<and> length P < 10 ^ 5" unfolding five(2) d by (simp only: not_less conj_commute)
  moreover have "length P < 10 ^ 5 \<longrightarrow> h = ?t @ drop (length ?t) (garbage ?n)" using h(3) five(1) d(1) by blast
  ultimately show ?thesis unfolding Let_def using sz h(1,2) by blast
qed



subsection \<open>Reading a whole file\<close>

lemma copy_hashes_run:
  "20 * (k + n) \<le> length s \<Longrightarrow> \<exists>hs. copy_hashes s k n = Inr hs \<and>
     concat hs = take (20 * n) (drop (20 * k) s) \<and> (\<forall>h \<in> set hs. length h = 20)"
proof (induction n arbitrary: k)
  case (Suc n)
  then obtain hs where hs: "copy_hashes s (Suc k) n = Inr hs"
    "concat hs = take (20 * n) (drop (20 * Suc k) s)" "\<forall>h \<in> set hs. length h = 20"
    by (metis add_Suc_right add_Suc)
  have "20 * k + 20 \<le> length s" using Suc.prems by simp
  then have "load_n s (k * 20) 20 = Inr (take 20 (drop (20 * k) s))"
    by (simp add: load_n_def mult.commute)
  moreover have "take 20 (drop (20 * k) s) @ take (20 * n) (drop (20 * Suc k) s) =
      take (20 * Suc n) (drop (20 * k) s)"
    by (simp add: take_add add.commute)
  ultimately show ?case
    using hs \<open>20 * k + 20 \<le> length s\<close> by (intro exI [of _ "take 20 (drop (20 * k) s) # hs"]) simp
qed simp

lemma parse_top_announce:
  "parse_top sha1 garbage memblock ((Some ''announce'', x) # d) fsize meta =
     and_then (node_string x) (\<lambda>s. parse_top sha1 garbage memblock d fsize (meta\<lparr>announce := s\<rparr>))"
  by (simp add: c_str_def and_then_assoc)

lemma parse_top_info:
  "parse_top sha1 garbage memblock ((Some ''info'', x) # d) fsize meta =
     and_then (info_size_of memblock fsize) (\<lambda>info_size.
     and_then (hash_info sha1 garbage x info_size) (\<lambda>h.
     and_then (val_d x) (\<lambda>info.
     and_then (parse_info memblock info fsize (meta\<lparr>info_hash := h\<rparr>)) (\<lambda>(fsize, meta).
       parse_top sha1 garbage memblock d fsize meta))))"
  by (simp add: c_str_def and_then_assoc)

lemma parse_info_append:
  "parse_info memblock (d @ e) fsize meta =
     and_then (parse_info memblock d fsize meta) (\<lambda>(fsize, meta). parse_info memblock e fsize meta)"
  by (induction d arbitrary: fsize meta) (auto simp: and_then_assoc case_prod_unfold simp del: parse_info.simps(2)
      simp: parse_info.simps(2) [abs_def])

lemma torrent_run:
  fixes ann P :: string and info :: be_node
  defines "m \<equiv> be_text (torrent_file ann info)"
  assumes "info_last m pre info body P" and "be_full info" and "no_empty_dict info"
    and "val_d info = Inr (d @ [(Some ''pieces'', BE_STR (Some P))])"
    and "\<And>fsize meta. parse_info m d fsize meta = Inr (fsize, g meta)"
    and "CHR 0x00 \<notin> set ann" and "20 dvd length P" and "length P < 10 ^ 5"
    and "\<forall>n. length (garbage n) = n"
  shows "\<exists>h hs. create_metafile sha1 garbage uninit (Some m) =
      Inr ((g (uninit\<lparr>announce := ann, info_hash := sha1 h\<rparr>))
        \<lparr>pieces := pieces (g (uninit\<lparr>announce := ann, info_hash := sha1 h\<rparr>)) @ hs\<rparr>) \<and>
    concat hs = P \<and> (\<forall>h \<in> set hs. length h = 20) \<and>
    (10 ^ 4 \<le> length P \<longrightarrow> h = be_text info)"
proof -
  have len: "length m < 2 ^ 31" using assms(2) by (simp add: info_last_def)
  have "length ann \<le> length m" by (simp add: m_def torrent_file_def benc_str_def)
  then have full: "be_full (torrent_file ann info)" "no_empty_dict (torrent_file ann info)"
    using len assms(3,4) by (simp_all add: torrent_file_def)
  have dec: "be_decoden m (int (length m)) = Inr (Some (torrent_file ann info))"
    using be_decoden_text [OF full(1), of "int (length m)" "[]"] full(2) by (simp add: m_def)
  obtain n h where h: "info_size_of m (int (length m)) = Inr (int n)"
    "hash_info sha1 garbage info (int n) = Inr (sha1 h)"
    "10 ^ 4 \<le> length P \<longrightarrow> h = be_text info"
    using info_hash_run [OF assms(2,3,10), of sha1] assms(9) unfolding Let_def by blast
  obtain hs where hs: "copy_hashes (P @ [CHR 0x00]) 0 (length P div 20) = Inr hs"
    "concat hs = P" "\<forall>h \<in> set hs. length h = 20"
    using copy_hashes_run [of 0 "length P div 20" "P @ [CHR 0x00]"] assms(8) by auto
  have small: "length P div 20 = 0 \<Longrightarrow> hs = []" using hs(1) by simp
  have step: "parse_info m (d @ [(Some ''pieces'', BE_STR (Some P))]) (int (length m)) meta =
    Inr (int (length P), (g meta)\<lparr>pieces := pieces (g meta) @ hs\<rparr>)" for meta
    using pieces_at(2) [OF assms(2)] hs(1) small
    by (simp add: parse_info_append assms(6) c_str_def val_s_def zdiv_int [of _ 20, symmetric, simplified])
  have top: "val_d (torrent_file ann info) = Inr [(Some ''announce'', BE_STR (Some ann)), (Some ''info'', info)]"
    by (simp add: torrent_file_def val_d_def live_def)
  have ann: "node_string (BE_STR (Some ann)) = Inr ann"
    using assms(7) by (simp add: c_str_id)
  have "create_metafile sha1 garbage uninit (Some m) =
      Inr ((g (uninit\<lparr>announce := ann, info_hash := sha1 h\<rparr>))
        \<lparr>pieces := pieces (g (uninit\<lparr>announce := ann, info_hash := sha1 h\<rparr>)) @ hs\<rparr>)"
    unfolding create_metafile_def option.case dec and_then_simps deref_node_def top
    unfolding parse_top_announce parse_top_info ann h(1,2) and_then_simps assms(5) step by simp
  with hs(2,3) h(3) show ?thesis by (intro exI [of _ h] exI [of _ hs]) simp
qed

lemma single_file_run:
  fixes ln pl :: int64 and nm P :: string
  defines "info \<equiv> torrent_info ln nm pl P"
  assumes "info_last (be_text (torrent_file ann info)) pre info body P"
    and "CHR 0x00 \<notin> set ann" and "CHR 0x00 \<notin> set nm" and "20 dvd length P" and "length P < 10 ^ 5"
    and "\<forall>n. length (garbage n) = n"
  shows "\<exists>h hs. create_metafile sha1 garbage uninit (Some (be_text (torrent_file ann info))) =
      Inr (uninit\<lparr>announce := ann, info_hash := sha1 h, meta_length := ucast ln, meta_name := nm,
        piece_length := ucast pl, pieces := pieces uninit @ hs\<rparr>) \<and>
    concat hs = P \<and> (\<forall>h \<in> set hs. length h = 20) \<and>
    (10 ^ 4 \<le> length P \<longrightarrow> h = be_text info)"
proof -
  let ?m = "be_text (torrent_file ann info)"
  let ?d = "[(Some ''length'', BE_INT ln), (Some ''name'', BE_STR (Some nm)), (Some ''piece length'', BE_INT pl)]"
  have "length ?m < 2 ^ 31" using assms(2) by (simp add: info_last_def)
  moreover have "length nm \<le> length ?m" "length P \<le> length ?m"
    by (simp_all add: torrent_file_def info_def torrent_info_def benc_str_def)
  ultimately have full: "be_full info" "no_empty_dict info"
    by (simp_all add: info_def torrent_info_def)
  have vals: "val_d info = Inr (?d @ [(Some ''pieces'', BE_STR (Some P))])"
    by (simp add: info_def torrent_info_def val_d_def live_def)
  have "parse_info ?m ?d fsize meta =
      Inr (fsize, meta\<lparr>meta_length := ucast ln, meta_name := nm, piece_length := ucast pl\<rparr>)" for fsize meta
    using assms(4) by (simp add: c_str_def node_unsigned_def val_i_def c_str_id [unfolded c_str_def])
  from torrent_run [OF assms(2) full vals this assms(3,5-7)] show ?thesis by simp
qed

text \<open>Reading a single-file metafile copies its fields: announce URL, name, length and piece
  length as written, and the pieces cut into their 20 byte hashes; the identity is the hash of the
  text of the \<open>info\<close> dictionary for a file with 500 to 4999 pieces.\<close>

lemma create_metafile_single_file:
  fixes ln pl :: int64 and nm P :: string
  defines "info \<equiv> torrent_info ln nm pl P"
  assumes "info_last (be_text (torrent_file ann info)) pre info body P"
    and "CHR 0x00 \<notin> set ann" and "CHR 0x00 \<notin> set nm" and "20 dvd length P" and "length P < 10 ^ 5"
    and "\<forall>n. length (garbage n) = n"
  shows "\<exists>h hs. create_metafile sha1 garbage uninit (Some (be_text (torrent_file ann info))) =
      Inr (uninit\<lparr>announce := ann, info_hash := sha1 h, meta_length := ucast ln, meta_name := nm,
        piece_length := ucast pl, pieces := pieces uninit @ hs\<rparr>) \<and>
    concat hs = P \<and> (\<forall>h \<in> set hs. length h = 20) \<and>
    (10 ^ 4 \<le> length P \<longrightarrow> h = be_text info)"
  using single_file_run [OF assms(2-7) [unfolded info_def]] unfolding info_def .

lemma sample_single_file:
  "\<exists>m. create_metafile (\<lambda>s. [of_nat (length s)]) (\<lambda>n. replicate n CHR ''?'') (metafile_init 0 0 0 0 [])
       (Some (be_text (torrent_file ''t'' sample_info))) = Inr m \<and>
     announce m = ''t'' \<and> meta_name m = ''f'' \<and> meta_length m = 100 \<and> piece_length m = 50 \<and>
     concat (pieces m) = sample_pieces \<and>
     info_hash m = [of_nat (length (be_text sample_info))]"
  using create_metafile_single_file [of "''t''" 100 "''f''" 50 sample_pieces "''d8:announce1:t4:''"
      "''d6:lengthi100e4:name1:f12:piece lengthi50e6:''" "\<lambda>n. replicate n CHR ''?''" "\<lambda>s. [of_nat (length s)]"
      "metafile_init 0 0 0 0 []", folded sample_info_def]
  using sample_info_last
  by (auto simp: sample_pieces_length metafile_init_def)

text \<open>A run whose hash has the size of a SHA-1 hash.\<close>

lemma sample_created:
  "\<exists>m. create_metafile (\<lambda>s. replicate 20 0) (\<lambda>n. replicate n CHR ''?'') (metafile_init 0 0 0 0 (replicate 20 0))
     (Some (be_text (torrent_file ''t'' sample_info))) = Inr m"
  using single_file_run [of "''t''" 100 "''f''" 50 sample_pieces "''d8:announce1:t4:''"
      "''d6:lengthi100e4:name1:f12:piece lengthi50e6:''" "\<lambda>n. replicate n CHR ''?''" "\<lambda>s. replicate 20 0"
      "metafile_init 0 0 0 0 (replicate 20 0)", folded sample_info_def] sample_info_last
  by (auto simp: sample_pieces_length)

subsection \<open>Files of a torrent\<close>

definition file_node :: "int64 \<times> string list \<Rightarrow> be_node" where
  "file_node f = BE_DICT
     [(Some ''length'', Some (BE_INT (fst f))),
      (Some ''path'', Some (BE_LIST (map (\<lambda>s. BE_STR (Some s)) (snd f))))]"

fun slashed :: "string list \<Rightarrow> string" where
  "slashed [] = []"
| "slashed [s] = s"
| "slashed (s # ss) = s @ ''/'' @ slashed ss"

lemma join_path_run:
  "\<forall>s \<in> set ss. CHR 0x00 \<notin> set s \<Longrightarrow>
     join_path (map (\<lambda>s. BE_STR (Some s)) ss) p = Inr (p @ concat (map (\<lambda>s. s @ ''/'') ss))"
  by (induction ss arbitrary: p) (simp_all add: c_str_id)

lemma butlast_slashed: "ss \<noteq> [] \<Longrightarrow> butlast (concat (map (\<lambda>s. s @ ''/'') ss)) = slashed ss"
  by (induction ss rule: slashed.induct) (simp_all add: butlast_append)

text \<open>The files of a torrent are read in order, each with its length in decimal and its path with
  the components joined by slashes; an empty path is taken off the end of an empty string.\<close>

lemma parse_dict_files:
  assumes "\<forall>f \<in> set fs. snd f \<noteq> [] \<and> (\<forall>s \<in> set (snd f). CHR 0x00 \<notin> set s)"
  shows "parse_dict (map file_node fs) =
      Inr (map (\<lambda>f. [''length'' \<mapsto> int_dec (sint (fst f)), ''path'' \<mapsto> slashed (snd f)]) fs) \<and>
    parse_dict (map file_node fs @ [file_node (n, [])]) = Inl OutOfBounds"
proof -
  have one: "parse_file [(Some ''length'', BE_INT (fst f)), (Some ''path'', BE_LIST (map (\<lambda>s. BE_STR (Some s)) (snd f)))] Map.empty =
    Inr [''length'' \<mapsto> int_dec (sint (fst f)), ''path'' \<mapsto> slashed (snd f)]" if "f \<in> set fs" for f
  proof -
    have "concat (map (\<lambda>s. s @ ''/'') (snd f)) \<noteq> []" using assms that by (cases "snd f") auto
    then show ?thesis
      using assms that
      by (simp add: key_is_def c_str_def val_i_def val_l_def join_path_run pop_back_def butlast_slashed)
  qed
  have d: "val_d (file_node f) = Inr [(Some ''length'', BE_INT (fst f)),
      (Some ''path'', BE_LIST (map (\<lambda>s. BE_STR (Some s)) (snd f)))]" for f
    by (simp add: file_node_def val_d_def live_def)
  have none: "parse_dict [file_node (n, [])] = Inl OutOfBounds"
    by (simp add: d key_is_def c_str_def val_i_def val_l_def pop_back_def)
  show ?thesis using one
  proof (induction fs)
    case Nil
    then show ?case using none by simp
  next
    case (Cons f fs)
    then show ?case by (auto simp: d simp del: parse_file.simps)
  qed
qed

text \<open>A file that is missing, empty or not bencoded is not reported: reading it ends in an exception
  or in the dereference of the null pointer the decoder returned.\<close>

lemma create_metafile_bad_file:
  assumes "\<not> is_digit c" and "c \<notin> {CHR ''i'', CHR ''l'', CHR ''d''}"
  shows "create_metafile sha1 garbage uninit None = Inl StdException \<and>
    create_metafile sha1 garbage uninit (Some []) = Inl NullDeref \<and>
    create_metafile sha1 garbage uninit (Some (c # s)) = Inl NullDeref"
proof -
  have "be_decoden [] 0 = and_then (Inr (None, [] :: string, 0 :: int)) (\<lambda>(p, cur). Inr p)"
    by (rule be_decoden_run) simp
  moreover have "be_decoden (c # s) (int (length (c # s))) =
      and_then (Inr (None, c # s, int (length (c # s)))) (\<lambda>(p, cur). Inr p)"
    by (rule be_decoden_run) (use assms in simp)
  ultimately show ?thesis by (simp add: create_metafile_def deref_node_def)
qed

end
