(* ===== verification/MetaPrint.thy ===== *)
theory MetaPrint
  imports MetafileReader
begin

text \<open>
  The shape of the metafiles \<open>create_metafile\<close> can return, and \<open>Metafile::print_meta\<close>
  (\<open>read_metafile.h\<close>), which relies on it: the printer as the text it writes and the object it
  leaves behind, since looking up a file's missing attribute inserts an empty one.
\<close>

subsection \<open>Well-formed metafiles\<close>

definition file_keys :: "string set" where
  "file_keys = {''length'', ''md5sum'', ''path''}"

definition metafile_wf :: "metafile \<Rightarrow> bool" where
  "metafile_wf m \<longleftrightarrow> list_all (\<lambda>h. length h = 20) (pieces m) \<and> length (info_hash m) = 20 \<and>
     list_all (\<lambda>f. dom f \<subseteq> file_keys) (files m)"

lemma copy_hashes_lengths: "copy_hashes s k n = Inr hs \<Longrightarrow> list_all (\<lambda>h. length h = 20) hs \<and> length hs = n"
proof (induction s k n arbitrary: hs rule: copy_hashes.induct)
  case (2 s k n)
  then show ?case by (auto simp: load_n_def elim!: and_then_InrE split: if_splits)
qed simp

lemma parse_file_keys: "parse_file d f = Inr f' \<Longrightarrow> dom f' \<subseteq> dom f \<union> file_keys"
proof (induction d arbitrary: f)
  case (Cons e d)
  then show ?case
    by (cases e) (fastforce simp: file_keys_def elim!: and_then_InrE dest!: Cons.IH split: if_splits)
qed simp

lemma parse_dict_keys: "parse_dict xs = Inr fs \<Longrightarrow> list_all (\<lambda>f. dom f \<subseteq> file_keys) fs"
proof (induction xs arbitrary: fs)
  case (Cons x xs)
  then show ?case using parse_file_keys [of _ Map.empty] by (fastforce elim!: and_then_InrE)
qed simp

lemma metafile_wf_update [simp]:
  "metafile_wf (m\<lparr>announce := s\<rparr>) = metafile_wf m"
  "metafile_wf (m\<lparr>announce_list := ls\<rparr>) = metafile_wf m"
  "metafile_wf (m\<lparr>creation_date := v\<rparr>) = metafile_wf m"
  "metafile_wf (m\<lparr>created_by := s\<rparr>) = metafile_wf m"
  "metafile_wf (m\<lparr>comment := s\<rparr>) = metafile_wf m"
  "metafile_wf (m\<lparr>meta_encoding := s\<rparr>) = metafile_wf m"
  "metafile_wf (m\<lparr>piece_length := v\<rparr>) = metafile_wf m"
  "metafile_wf (m\<lparr>private_field := v\<rparr>) = metafile_wf m"
  "metafile_wf (m\<lparr>meta_name := s\<rparr>) = metafile_wf m"
  "metafile_wf (m\<lparr>meta_length := v\<rparr>) = metafile_wf m"
  "metafile_wf (m\<lparr>md5sum := s\<rparr>) = metafile_wf m"
  by (simp_all add: metafile_wf_def)

lemma metafile_wf_parts:
  "metafile_wf m \<Longrightarrow> parse_dict xs = Inr fs \<Longrightarrow> metafile_wf (m\<lparr>files := fs\<rparr>)"
  "metafile_wf m \<Longrightarrow> copy_hashes s k n = Inr hs \<Longrightarrow> metafile_wf (m\<lparr>pieces := pieces m @ hs\<rparr>)"
  "metafile_wf m \<Longrightarrow> metafile_wf (m\<lparr>pieces := pieces m\<rparr>)"
  "metafile_wf m \<Longrightarrow> length h = 20 \<Longrightarrow> metafile_wf (m\<lparr>info_hash := h\<rparr>)"
  by (auto simp: metafile_wf_def dest: copy_hashes_lengths parse_dict_keys)

text \<open>Each entry keeps the shape: one entry is the run on a dictionary of that entry alone.\<close>

lemma parse_info_entry:
  "parse_info memblock (e # d) fsize m =
     and_then (parse_info memblock [e] fsize m) (\<lambda>(fsize, m). parse_info memblock d fsize m)"
proof (cases e)
  case (Pair k x)
  have inr: "and_then m (\<lambda>(fsize, meta). Inr (fsize, meta)) = m" for m :: "(int \<times> metafile) res"
    by (cases m) auto
  show ?thesis
    unfolding Pair parse_info.simps inr
    by (simp only: and_then_assoc split_beta prod.collapse)
qed

lemma parse_info_one_wf:
  assumes "parse_info memblock [(k, x)] fsize m = Inr (fsize', m')" and "metafile_wf m"
  shows "metafile_wf m'"
  using assms
  by (auto elim!: and_then_InrE split: if_splits) (rule metafile_wf_parts; assumption)+

lemma parse_info_wf:
  "parse_info memblock d fsize m = Inr (fsize', m') \<Longrightarrow> metafile_wf m \<Longrightarrow> metafile_wf m'"
proof (induction d arbitrary: fsize m)
  case (Cons e d)
  from Cons.prems(1) obtain f1 m1 where 1: "parse_info memblock [e] fsize m = Inr (f1, m1)"
    and 2: "parse_info memblock d f1 m1 = Inr (fsize', m')"
    using parse_info_entry [of memblock e d fsize m] by (auto elim!: and_then_InrE simp del: parse_info.simps)
  obtain k x where e: "e = (k, x)" by (cases e)
  have "metafile_wf m1" by (rule parse_info_one_wf [OF 1 [unfolded e] Cons.prems(2)])
  with 2 show ?case by (rule Cons.IH)
qed simp

text \<open>The same for the top level, whose \<open>info\<close> entry runs the whole inner loop.\<close>

lemma parse_top_entry:
  "parse_top sha1 garbage memblock ((k, x) # d) fsize m = Inr m' \<Longrightarrow> metafile_wf m \<Longrightarrow>
     (\<And>s. length (sha1 s) = 20) \<Longrightarrow>
     \<exists>f1 m1. parse_top sha1 garbage memblock d f1 m1 = Inr m' \<and> metafile_wf m1"
  by (auto simp: hash_info_def elim!: and_then_InrE split: if_splits)
    (force intro: parse_info_wf metafile_wf_parts(4))+

lemma parse_top_wf:
  assumes "\<And>s. length (sha1 s) = 20"
  shows "parse_top sha1 garbage memblock d fsize m = Inr m' \<Longrightarrow> metafile_wf m \<Longrightarrow> metafile_wf m'"
proof (induction d arbitrary: fsize m)
  case (Cons e d)
  obtain k x where e: "e = (k, x)" by (cases e)
  from parse_top_entry [OF Cons.prems(1) [unfolded e] Cons.prems(2) assms] Cons.IH show ?case by blast
qed simp

lemma create_metafile_wf:
  assumes "create_metafile sha1 garbage (metafile_init i j pl len h) content = Inr m"
    and "\<forall>s. length (sha1 s) = 20" and "length h = 20"
  shows "metafile_wf m"
proof -
  from assms(1) obtain memblock d where
    "parse_top sha1 garbage memblock d (int (length memblock)) (metafile_init i j pl len h) = Inr m"
    by (auto simp: create_metafile_def split: option.splits elim!: and_then_InrE)
  moreover have "metafile_wf (metafile_init i j pl len h)"
    using assms(3) by (simp add: metafile_wf_def metafile_init_def)
  ultimately show ?thesis using parse_top_wf [of sha1] assms(2) by blast
qed

text \<open>C9: whatever file it is given, a metafile that \<open>create_metafile\<close> returns has the shape its readers
  rely on: every piece hash and the info hash have 20 bytes, and a file has no attributes but its
  length, MD5 sum and path.\<close>

theorem create_metafile_typed:
  assumes "create_metafile sha1 garbage (metafile_init i j pl len h) content = Inr m"
    and "\<forall>s. length (sha1 s) = 20" and "length h = 20"
  shows "(\<forall>p \<in> set (pieces m). length p = 20) \<and> length (info_hash m) = 20 \<and>
    (\<forall>f \<in> set (files m). dom f \<subseteq> {''length'', ''md5sum'', ''path''})"
  using create_metafile_wf [OF assms] by (simp add: metafile_wf_def file_keys_def list_all_iff)

theorem create_metafile_typed_witness:
  "\<exists>m. create_metafile (\<lambda>s. replicate 20 0) (\<lambda>n. replicate n CHR ''?'') (metafile_init 0 0 0 0 (replicate 20 0))
     (Some (be_text (torrent_file ''t'' sample_info))) = Inr m \<and> (\<forall>p \<in> set (pieces m). length p = 20)"
proof -
  obtain m where m: "create_metafile (\<lambda>s. replicate 20 0) (\<lambda>n. replicate n CHR ''?'') (metafile_init 0 0 0 0 (replicate 20 0))
      (Some (be_text (torrent_file ''t'' sample_info))) = Inr m" using sample_created by blast
  have "length (replicate 20 (0 :: byte)) = 20" by simp
  with create_metafile_typed [OF m] m show ?thesis by blast
qed

subsection \<open>The printer\<close>

definition hex_digit :: "nat \<Rightarrow> char" where
  "hex_digit d = ''0123456789abcdef'' ! d"

text \<open>\<open>printf\<close> with \<open>0%x\<close> below 16 and with \<open>%x\<close> otherwise.\<close>

definition print_hex :: "byte \<Rightarrow> string" where
  "print_hex b =
     (if unat b < 16 then ''0'' @ [hex_digit (unat b)]
      else [hex_digit (unat b div 16), hex_digit (unat b mod 16)])"

definition print_string :: "string \<Rightarrow> string \<Rightarrow> string" where
  "print_string label s = (if s = [] then [] else label @ s @ ''\<newline>'')"

definition print_unsigned :: "string \<Rightarrow> int32 \<Rightarrow> string" where
  "print_unsigned label v = (if v = 0 then [] else label @ nat_dec (unat v) @ ''\<newline>'')"

text \<open>\<open>pieces[p][o]\<close>: a \<open>std::string\<close> can be read up to and including its terminating zero.\<close>

fun print_pieces :: "nat \<Rightarrow> string list \<Rightarrow> string res" where
  "print_pieces p [] = Inr []"
| "print_pieces p (h # hs) =
     and_then (load_n (h @ [CHR 0x00]) 0 20) (\<lambda>cs.
     and_then (print_pieces (Suc p) hs) (\<lambda>t.
       Inr (CHR 0x09 # nat_dec p @ '': '' @ cs @ ''\<newline>'' @ t)))"

fun print_levels :: "nat \<Rightarrow> string list list \<Rightarrow> string" where
  "print_levels i [] = []"
| "print_levels i (l # ls) =
     CHR 0x09 # ''level: '' @ nat_dec i @ ''\<newline>'' @
     concat (map (\<lambda>s. [CHR 0x09, CHR 0x09] @ s @ ''\<newline>'') l) @ print_levels (Suc i) ls"

text \<open>\<open>files[i][key]\<close> gives the attribute and inserts an empty one when it is missing.\<close>

definition map_subscript :: "(string \<rightharpoonup> string) \<Rightarrow> string \<Rightarrow> string \<times> (string \<rightharpoonup> string)" where
  "map_subscript f key = (case f key of Some v \<Rightarrow> (v, f) | None \<Rightarrow> ([], f(key \<mapsto> [])))"

definition print_attribute :: "string \<Rightarrow> (string \<rightharpoonup> string) \<Rightarrow> string \<times> (string \<rightharpoonup> string)" where
  "print_attribute key f =
     (case map_subscript f key of (v, f) \<Rightarrow> ([CHR 0x09, CHR 0x09] @ key @ '': '' @ v @ ''\<newline>'', f))"

fun print_files :: "nat \<Rightarrow> (string \<rightharpoonup> string) list \<Rightarrow> string \<times> (string \<rightharpoonup> string) list" where
  "print_files i [] = ([], [])"
| "print_files i (f # fs) =
     (case print_attribute ''length'' f of (t1, f) \<Rightarrow>
      case print_attribute ''md5sum'' f of (t2, f) \<Rightarrow>
      case print_attribute ''path'' f of (t3, f) \<Rightarrow>
      case print_files (Suc i) fs of (t, fs) \<Rightarrow>
        (CHR 0x09 # ''file '' @ nat_dec (i + 1) @ '':\<newline>'' @ t1 @ t2 @ t3 @ t, f # fs))"

definition print_hash :: "mem \<Rightarrow> string res" where
  "print_hash h = and_then (load_n h 0 20) (\<lambda>bs. Inr (''info-hash: '' @ concat (map print_hex bs) @ ''\<newline>''))"

text \<open>The loop over the files counts in the member \<open>i\<close>, which keeps its last value.\<close>

definition print_meta :: "metafile \<Rightarrow> (string \<times> metafile) res" where
  "print_meta m =
     and_then (print_pieces 0 (pieces m)) (\<lambda>ps.
     and_then (print_hash (info_hash m)) (\<lambda>hash.
     let (fs_text, fs) = print_files 0 (files m)
     in Inr (''Extracted data from meta file:\<newline>'' @
          print_string ''announce: '' (announce m) @
          print_string ''created by: '' (created_by m) @
          print_string ''comment: '' (comment m) @
          print_string ''encoding: '' (meta_encoding m) @
          print_unsigned ''creation date: '' (creation_date m) @
          print_unsigned ''piece length: '' (piece_length m) @
          (if pieces m = [] then [] else ''pieces: \<newline>'' @ ps) @
          print_unsigned ''private: '' (private_field m) @
          print_string ''name: '' (meta_name m) @
          print_unsigned ''length: '' (meta_length m) @
          (if announce_list m = [] then []
           else ''announce list in a list of lists of strings:\<newline>'' @ print_levels 0 (announce_list m)) @
          (if files m = [] then [] else ''files: in a list of dictionaries (map)\<newline>'' @ fs_text) @
          hash, m\<lparr>files := fs, member_i := (if files m = [] then member_i m else of_nat (length (files m)))\<rparr>)))"

text \<open>
  The program \<open>read_metafile\<close>: it prints the metafile its last argument names. \<open>fs\<close> gives the files
  that can be opened; an argument list holds at least the program's name.
\<close>

definition metafile_main ::
  "(string \<Rightarrow> mem) \<Rightarrow> (nat \<Rightarrow> string) \<Rightarrow> metafile \<Rightarrow> (string \<Rightarrow> string option) \<Rightarrow> string list \<Rightarrow> (int \<times> string) res" where
  "metafile_main sha1 garbage uninit fs argv =
     and_then (create_metafile sha1 garbage uninit (fs (last argv))) (\<lambda>meta.
     and_then (print_meta meta) (\<lambda>(t, meta). Inr (0, t)))"

subsection \<open>Reading the info hash back\<close>

text \<open>The value of a lower case hexadecimal digit, and the bytes of a hexadecimal text.\<close>

definition hex_value :: "char \<Rightarrow> nat" where
  "hex_value c = (if is_digit c then of_char c - 48 else of_char c - 87)"

fun of_hex :: "string \<Rightarrow> mem" where
  "of_hex (a # b # cs) = word_of_nat (16 * hex_value a + hex_value b) # of_hex cs"
| "of_hex _ = []"

lemma hex_value_digit: "d < 16 \<Longrightarrow> hex_value (hex_digit d) = d"
proof -
  have "\<forall>d \<in> {0..<16}. hex_value (hex_digit d) = d" by code_simp
  then show "d < 16 \<Longrightarrow> hex_value (hex_digit d) = d" by simp
qed

lemma print_hex_digits: "print_hex b = [hex_digit (unat b div 16), hex_digit (unat b mod 16)]"
  by (simp add: print_hex_def hex_digit_def)

lemma of_hex_print_hex: "of_hex (print_hex b @ cs) = b # of_hex cs"
proof -
  have "unat b < 2 ^ LENGTH(8)" by (rule unsigned_less)
  then have "unat b < 256" by simp
  then show ?thesis
    by (simp add: print_hex_digits hex_value_digit)
qed

lemma of_hex_print: "of_hex (concat (map print_hex bs)) = bs"
  by (induction bs) (simp_all add: of_hex_print_hex)

lemma print_hex_length: "length (concat (map print_hex bs)) = 2 * length bs"
  by (induction bs) (simp_all add: print_hex_digits)

subsection \<open>Printing what was read\<close>

lemma print_pieces_ok: "list_all (\<lambda>h. length h = 20) hs \<Longrightarrow> \<exists>t. print_pieces p hs = Inr t"
proof (induction hs arbitrary: p)
  case (Cons h hs)
  then obtain t where "print_pieces (Suc p) hs = Inr t" by fastforce
  with Cons.prems show ?case by (simp add: load_n_def)
qed simp

text \<open>The files with every attribute present.\<close>

definition completed :: "(string \<rightharpoonup> string) \<Rightarrow> (string \<rightharpoonup> string)" where
  "completed f k = (if k \<in> file_keys \<and> f k = None then Some [] else f k)"

lemma print_attribute_map: "snd (print_attribute key f) = f(key \<mapsto> case f key of None \<Rightarrow> [] | Some v \<Rightarrow> v)"
  by (auto simp: print_attribute_def map_subscript_def split: option.splits)

lemma print_files_complete: "snd (print_files i fs) = map completed fs"
proof (induction fs arbitrary: i)
  case (Cons f fs)
  have "(f(''length'' \<mapsto> case f ''length'' of None \<Rightarrow> [] | Some v \<Rightarrow> v,
           ''md5sum'' \<mapsto> case f ''md5sum'' of None \<Rightarrow> [] | Some v \<Rightarrow> v,
           ''path'' \<mapsto> case f ''path'' of None \<Rightarrow> [] | Some v \<Rightarrow> v)) k = completed f k" for k
    by (auto simp: completed_def file_keys_def split: option.splits)
  then have "snd (print_attribute ''path'' (snd (print_attribute ''md5sum'' (snd (print_attribute ''length'' f))))) =
      completed f"
    by (simp add: print_attribute_map fun_eq_iff)
  with Cons show ?case by (simp add: split_beta)
qed simp

definition printed :: "metafile \<Rightarrow> metafile" where
  "printed m = m\<lparr>files := map completed (files m),
     member_i := (if files m = [] then member_i m else of_nat (length (files m)))\<rparr>"

lemma print_meta_run:
  assumes "metafile_wf m"
  shows "\<exists>t. print_meta m = Inr (t @ ''info-hash: '' @ concat (map print_hex (info_hash m)) @ ''\<newline>'',
    printed m)"
proof -
  obtain ps where "print_pieces 0 (pieces m) = Inr ps"
    using assms print_pieces_ok by (auto simp: metafile_wf_def)
  moreover have "print_hash (info_hash m) = Inr (''info-hash: '' @ concat (map print_hex (info_hash m)) @ ''\<newline>'')"
    using assms by (simp add: print_hash_def load_n_def metafile_wf_def)
  ultimately show ?thesis
    using print_files_complete [of 0 "files m"]
    by (simp add: print_meta_def Let_def split_beta printed_def)
qed

text \<open>C23: every metafile that \<open>create_metafile\<close> returns can be printed: no read of the printer is out of
  bounds, and the program \<open>read_metafile\<close> prints whatever it can read. The last line shows the info
  hash as 40 digits from which it can be read back, and the only traces in the object are that the
  missing attributes of its files are now empty ones and that \<open>i\<close> has counted the files.\<close>

theorem print_meta_after_create:
  assumes "create_metafile sha1 garbage (metafile_init i j pl len h) content = Inr m"
    and "\<forall>s. length (sha1 s) = 20" and "length h = 20"
  shows "\<exists>t hex. print_meta m = Inr (t @ ''info-hash: '' @ hex @ ''\<newline>'',
      m\<lparr>files := map completed (files m),
        member_i := (if files m = [] then member_i m else of_nat (length (files m)))\<rparr>) \<and>
    length hex = 40 \<and> of_hex hex = info_hash m \<and>
    (\<forall>fs argv. fs (last argv) = content \<longrightarrow>
      metafile_main sha1 garbage (metafile_init i j pl len h) fs argv = Inr (0, t @ ''info-hash: '' @ hex @ ''\<newline>''))"
proof -
  have wf: "metafile_wf m" using assms by (rule create_metafile_wf)
  then have "length (concat (map print_hex (info_hash m))) = 40"
    by (simp add: print_hex_length metafile_wf_def)
  moreover obtain t where
    "print_meta m = Inr (t @ ''info-hash: '' @ concat (map print_hex (info_hash m)) @ ''\<newline>'',
      printed m)" using print_meta_run [OF wf] by blast
  ultimately show ?thesis
    using of_hex_print assms(1)
    by (intro exI [of _ t] exI [of _ "concat (map print_hex (info_hash m))"]) (simp add: metafile_main_def printed_def)
qed

theorem print_meta_after_create_witness:
  "\<exists>m t hex. create_metafile (\<lambda>s. replicate 20 0) (\<lambda>n. replicate n CHR ''?'') (metafile_init 0 0 0 0 (replicate 20 0))
     (Some (be_text (torrent_file ''t'' sample_info))) = Inr m \<and>
     print_meta m = Inr (t @ ''info-hash: '' @ hex @ ''\<newline>'',
       m\<lparr>files := map completed (files m),
         member_i := (if files m = [] then member_i m else of_nat (length (files m)))\<rparr>) \<and> length hex = 40"
proof -
  obtain m where m: "create_metafile (\<lambda>s. replicate 20 0) (\<lambda>n. replicate n CHR ''?'') (metafile_init 0 0 0 0 (replicate 20 0))
      (Some (be_text (torrent_file ''t'' sample_info))) = Inr m" using sample_created by blast
  have "length (replicate 20 (0 :: byte)) = 20" by simp
  with print_meta_after_create [OF m] m show ?thesis by blast
qed

end
