(* ===== verification/MetaFields.thy ===== *)
theory MetaFields
  imports MetafileReader
begin

text \<open>
  What every field of a metafile holds after \<open>create_metafile\<close>, for any file that is read to the end:
  the converted value of the last entry with the field's key, or what the field held before. The
  specification looks entries up by key; the reader assigns them one after the other. Two fields have
  rules of their own: the hashes of the pieces, which are appended, and the info hash.
\<close>

subsection \<open>Entries by key\<close>

type_synonym entry = "string option \<times> be_node"

definition last_entry :: "string \<Rightarrow> entry list \<Rightarrow> be_node option" where
  "last_entry key d = map_of (rev (map (\<lambda>(k, x). (c_str (the k), x)) d)) key"

text \<open>\<open>field_is conv key d a v\<close>: reading the entries \<open>d\<close> takes a field with key \<open>key\<close> from \<open>a\<close> to \<open>v\<close>.\<close>

definition field_is :: "(be_node \<Rightarrow> 'a res) \<Rightarrow> string \<Rightarrow> entry list \<Rightarrow> 'a \<Rightarrow> 'a \<Rightarrow> bool" where
  "field_is conv key d a v = (case last_entry key d of None \<Rightarrow> v = a | Some x \<Rightarrow> conv x = Inr v)"

lemma field_is_Nil [simp]: "field_is conv key [] a v \<longleftrightarrow> v = a"
  by (simp add: field_is_def last_entry_def)

lemma field_is_append: "field_is conv key d a b \<Longrightarrow> field_is conv key e b v \<Longrightarrow> field_is conv key (d @ e) a v"
  by (auto simp: field_is_def last_entry_def map_add_def split: option.splits)

lemma field_is_Cons:
  assumes "if c_str s = key then conv x = Inr b else b = a" and "field_is conv key d b v"
  shows "field_is conv key ((Some s, x) # d) a v"
  using field_is_append [of conv key "[(Some s, x)]" a b d v] assms
  by (auto simp: field_is_def last_entry_def split: if_splits)

definition info_entries :: "entry list \<Rightarrow> entry list" where
  "info_entries d = concat (map (\<lambda>(k, x). if c_str (the k) = ''info''
     then (case x of BE_DICT e \<Rightarrow> live e | _ \<Rightarrow> []) else []) d)"

lemma info_entries_Cons:
  "info_entries ((Some s, x) # d) =
     (if c_str s = ''info'' then (case x of BE_DICT e \<Rightarrow> live e | _ \<Rightarrow> []) else []) @ info_entries d"
  by (simp add: info_entries_def)

subsection \<open>The fields of the info dictionary\<close>

definition list_files :: "be_node \<Rightarrow> (string \<rightharpoonup> string) list res" where
  "list_files x = and_then (val_l x) parse_dict"

definition list_urls :: "be_node \<Rightarrow> string list list res" where
  "list_urls x = and_then (val_l x) parse_list_list"

definition info_fields :: "entry list \<Rightarrow> metafile \<Rightarrow> metafile \<Rightarrow> bool" where
  "info_fields d m m' \<longleftrightarrow>
     field_is node_assign ''name'' d (meta_name m) (meta_name m') \<and>
     field_is node_unsigned ''length'' d (meta_length m) (meta_length m') \<and>
     field_is node_assign ''md5sum'' d (md5sum m) (md5sum m') \<and>
     field_is list_files ''files'' d (files m) (files m') \<and>
     field_is node_unsigned ''piece length'' d (piece_length m) (piece_length m') \<and>
     field_is node_unsigned ''private'' d (private_field m) (private_field m')"

definition top_fields :: "entry list \<Rightarrow> metafile \<Rightarrow> metafile \<Rightarrow> bool" where
  "top_fields d m m' \<longleftrightarrow>
     field_is node_string ''announce'' d (announce m) (announce m') \<and>
     field_is list_urls ''announce-list'' d (announce_list m) (announce_list m') \<and>
     field_is node_unsigned ''creation date'' d (creation_date m) (creation_date m') \<and>
     field_is node_string ''created by'' d (created_by m) (created_by m') \<and>
     field_is node_string ''comment'' d (comment m) (comment m') \<and>
     field_is node_string ''encoding'' d (meta_encoding m) (meta_encoding m')"

lemma top_fields_same:
  "(announce m', announce_list m', creation_date m', created_by m', comment m', meta_encoding m') =
     (announce m, announce_list m, creation_date m, created_by m, comment m, meta_encoding m) \<Longrightarrow>
   top_fields [] m m'"
  by (simp add: top_fields_def)

lemma info_fields_Cons:
  assumes "info_fields d b m'"
    and "if c_str s = ''name'' then node_assign x = Inr (meta_name b) else meta_name b = meta_name m"
    and "if c_str s = ''length'' then node_unsigned x = Inr (meta_length b) else meta_length b = meta_length m"
    and "if c_str s = ''md5sum'' then node_assign x = Inr (md5sum b) else md5sum b = md5sum m"
    and "if c_str s = ''files'' then list_files x = Inr (files b) else files b = files m"
    and "if c_str s = ''piece length'' then node_unsigned x = Inr (piece_length b) else piece_length b = piece_length m"
    and "if c_str s = ''private'' then node_unsigned x = Inr (private_field b) else private_field b = private_field m"
  shows "info_fields ((Some s, x) # d) m m'"
  using assms unfolding info_fields_def by (blast intro: field_is_Cons)

lemma parse_info_fields:
  "parse_info memblock d fsize m = Inr (fsize', m') \<Longrightarrow> info_fields d m m' \<and> top_fields [] m m'"
proof (induction d arbitrary: fsize m)
  case Nil
  then show ?case by (simp add: info_fields_def top_fields_def)
next
  case (Cons e d)
  obtain k x where e: "e = (k, x)" by (cases e)
  from Cons.prems obtain s f b where k: "k = Some s"
    and r: "parse_info memblock d f b = Inr (fsize', m')"
    and step: "(if c_str s = ''piece length'' then
          and_then (node_unsigned x) (\<lambda>v. Inr (fsize, m\<lparr>piece_length := v\<rparr>))
        else if c_str s = ''pieces'' then
          and_then (assign_n memblock fsize) (\<lambda>s.
          and_then (atoi_at memblock (pieces_position s)) (\<lambda>fsize.
          and_then (if fsize div 20 \<le> 0 then Inr [] else and_then (val_s x) (\<lambda>s.
              copy_hashes (s @ [CHR 0x00]) 0 (nat (fsize div 20)))) (\<lambda>hs.
            Inr (fsize, m\<lparr>pieces := pieces m @ hs\<rparr>))))
        else if c_str s = ''private'' then
          and_then (node_unsigned x) (\<lambda>v. Inr (fsize, m\<lparr>private_field := v\<rparr>))
        else if c_str s = ''name'' then
          and_then (node_assign x) (\<lambda>s. Inr (fsize, m\<lparr>meta_name := s\<rparr>))
        else if c_str s = ''length'' then
          and_then (node_unsigned x) (\<lambda>v. Inr (fsize, m\<lparr>meta_length := v\<rparr>))
        else if c_str s = ''files'' then
          and_then (val_l x) (\<lambda>xs. and_then (parse_dict xs) (\<lambda>fs. Inr (fsize, m\<lparr>files := fs\<rparr>)))
        else if c_str s = ''md5sum'' then
          and_then (node_assign x) (\<lambda>s. Inr (fsize, m\<lparr>md5sum := s\<rparr>))
        else Inr (fsize, m)) = Inr (f, b)"
    unfolding e by (auto elim!: and_then_InrE split: option.splits)
  from Cons.IH [OF r] have i: "info_fields d b m'" and t: "top_fields [] b m'" by blast+
  have "info_fields ((Some s, x) # d) m m'"
    by (rule info_fields_Cons [OF i]) (use step in \<open>auto simp: list_files_def elim!: and_then_InrE split: if_splits\<close>)
  moreover have "top_fields [] m m'"
    using step t by (auto simp: top_fields_def elim!: and_then_InrE split: if_splits)
  ultimately show ?case by (simp add: e k)
qed

subsection \<open>The fields of the whole file\<close>

lemma top_fields_Cons:
  assumes "top_fields d b m'"
    and "if c_str s = ''announce'' then node_string x = Inr (announce b) else announce b = announce m"
    and "if c_str s = ''announce-list'' then list_urls x = Inr (announce_list b) else announce_list b = announce_list m"
    and "if c_str s = ''creation date'' then node_unsigned x = Inr (creation_date b) else creation_date b = creation_date m"
    and "if c_str s = ''created by'' then node_string x = Inr (created_by b) else created_by b = created_by m"
    and "if c_str s = ''comment'' then node_string x = Inr (comment b) else comment b = comment m"
    and "if c_str s = ''encoding'' then node_string x = Inr (meta_encoding b) else meta_encoding b = meta_encoding m"
  shows "top_fields ((Some s, x) # d) m m'"
  using assms unfolding top_fields_def by (blast intro: field_is_Cons)

lemma info_fields_append: "info_fields d m b \<Longrightarrow> info_fields e b m' \<Longrightarrow> info_fields (d @ e) m m'"
  unfolding info_fields_def by (blast intro: field_is_append)

lemma val_d_dict: "val_d x = Inr e \<Longrightarrow> \<exists>d. x = BE_DICT d \<and> e = live d"
  by (cases x) (auto simp: val_d_def)

lemma parse_top_fields:
  "parse_top sha1 garbage memblock d fsize m = Inr m' \<Longrightarrow>
     top_fields d m m' \<and> info_fields (info_entries d) m m'"
proof (induction d arbitrary: fsize m)
  case Nil
  then show ?case by (simp add: info_fields_def top_fields_def info_entries_def)
next
  case (Cons e d)
  obtain k x where e: "e = (k, x)" by (cases e)
  from Cons.prems obtain s f b where k: "k = Some s"
    and r: "parse_top sha1 garbage memblock d f b = Inr m'"
    and step: "(if c_str s = ''announce'' then
          and_then (node_string x) (\<lambda>s. Inr (fsize, m\<lparr>announce := s\<rparr>))
        else if c_str s = ''announce-list'' then
          and_then (val_l x) (\<lambda>xs. and_then (parse_list_list xs) (\<lambda>ls.
            Inr (fsize, m\<lparr>announce_list := ls\<rparr>)))
        else if c_str s = ''creation date'' then
          and_then (node_unsigned x) (\<lambda>v. Inr (fsize, m\<lparr>creation_date := v\<rparr>))
        else if c_str s = ''created by'' then
          and_then (node_string x) (\<lambda>s. Inr (fsize, m\<lparr>created_by := s\<rparr>))
        else if c_str s = ''comment'' then
          and_then (node_string x) (\<lambda>s. Inr (fsize, m\<lparr>comment := s\<rparr>))
        else if c_str s = ''encoding'' then
          and_then (node_string x) (\<lambda>s. Inr (fsize, m\<lparr>meta_encoding := s\<rparr>))
        else if c_str s = ''info'' then
          and_then (info_size_of memblock fsize) (\<lambda>info_size.
          and_then (hash_info sha1 garbage x info_size) (\<lambda>h.
          and_then (val_d x) (\<lambda>info. parse_info memblock info fsize (m\<lparr>info_hash := h\<rparr>))))
        else Inr (fsize, m)) = Inr (f, b)"
    unfolding e by (auto elim!: and_then_InrE split: option.splits)
  from Cons.IH [OF r] have t: "top_fields d b m'" and i: "info_fields (info_entries d) b m'" by blast+
  show ?case
  proof (cases "c_str s = ''info''")
    case True
    with step obtain h info where "val_d x = Inr info"
      and p: "parse_info memblock info fsize (m\<lparr>info_hash := h\<rparr>) = Inr (f, b)"
      by (auto elim!: and_then_InrE)
    then obtain dd where x: "x = BE_DICT dd" "info = live dd" using val_d_dict by blast
    from parse_info_fields [OF p] have b: "info_fields info m b" "top_fields [] m b"
      by (simp_all add: info_fields_def top_fields_def)
    have "top_fields ((Some s, x) # d) m m'"
      by (rule top_fields_Cons [OF t]) (use b(2) True in \<open>simp_all add: top_fields_def\<close>)
    then show ?thesis
      using info_fields_append [OF b(1) i] True by (simp add: e k info_entries_Cons x)
  next
    case False
    have "top_fields ((Some s, x) # d) m m'"
      by (rule top_fields_Cons [OF t]) (use step False in \<open>auto simp: list_urls_def elim!: and_then_InrE split: if_splits\<close>)
    moreover have "info_fields (info_entries d) m m'"
      using step i False by (auto simp: info_fields_def elim!: and_then_InrE split: if_splits)
    ultimately show ?thesis using False by (simp add: e k info_entries_Cons)
  qed
qed

subsection \<open>Pieces and identity\<close>

text \<open>
  The hashes of all \<open>pieces\<close> entries, in order. How many are taken from each is read from the raw text,
  where the word \<open>pieces\<close> first occurs in its first \<open>fs\<close> bytes, and becomes the new value of \<open>fs\<close>.
\<close>

fun entry_hashes :: "string \<Rightarrow> int \<Rightarrow> entry list \<Rightarrow> (int \<times> string list) res" where
  "entry_hashes s fs [] = Inr (fs, [])"
| "entry_hashes s fs ((k, x) # d) =
     (if c_str (the k) \<noteq> ''pieces'' then entry_hashes s fs d
      else and_then (assign_n s fs) (\<lambda>t.
           and_then (atoi_at s (pieces_position t)) (\<lambda>n.
           and_then (if n div 20 \<le> 0 then Inr [] else and_then (val_s x) (\<lambda>p.
               copy_hashes (p @ [CHR 0x00]) 0 (nat (n div 20)))) (\<lambda>hs.
           and_then (entry_hashes s n d) (\<lambda>(fs', hs'). Inr (fs', hs @ hs'))))))"

lemma entry_hashes_append:
  "entry_hashes s fs (d @ e) = and_then (entry_hashes s fs d) (\<lambda>(fs', hs).
     and_then (entry_hashes s fs' e) (\<lambda>(fs'', hs'). Inr (fs'', hs @ hs')))"
proof (induction d arbitrary: fs)
  case Nil
  show ?case by (cases "entry_hashes s fs e") auto
next
  case (Cons x d)
  then show ?case by (cases x) (simp add: and_then_assoc split_beta)
qed

lemma parse_info_pieces:
  "parse_info memblock d fsize m = Inr (f, m') \<Longrightarrow>
     \<exists>hs. entry_hashes memblock fsize d = Inr (f, hs) \<and> pieces m' = pieces m @ hs \<and> info_hash m' = info_hash m"
proof (induction d arbitrary: fsize m)
  case (Cons e d)
  obtain k x where e: "e = (k, x)" by (cases e)
  show ?case
  proof (cases "c_str (the k) = ''pieces''")
    case True
    with Cons.prems obtain t n hs where 1: "assign_n memblock fsize = Inr t" "atoi_at memblock (pieces_position t) = Inr n"
      "(if n div 20 \<le> 0 then Inr [] else and_then (val_s x) (\<lambda>p. copy_hashes (p @ [CHR 0x00]) 0 (nat (n div 20)))) = Inr hs"
      and r: "parse_info memblock d n (m\<lparr>pieces := pieces m @ hs\<rparr>) = Inr (f, m')"
      by (auto simp: e elim!: and_then_InrE split: option.splits)
    from Cons.IH [OF r] obtain hs' where "entry_hashes memblock n d = Inr (f, hs')"
      "pieces m' = pieces m @ hs @ hs'" "info_hash m' = info_hash m" by auto
    with 1 True show ?thesis by (simp add: e)
  next
    case False
    with Cons.prems obtain b where r: "parse_info memblock d fsize b = Inr (f, m')"
      and b: "pieces b = pieces m" "info_hash b = info_hash m"
      by (auto simp: e elim!: and_then_InrE split: option.splits if_splits)
    from Cons.IH [OF r] b False show ?thesis by (simp add: e)
  qed
qed simp

text \<open>
  The info hash is that of the last \<open>info\<close> entry, of the size computed there; without such an entry it
  stays what it was.
\<close>

definition identity_is ::
  "(string \<Rightarrow> mem) \<Rightarrow> (nat \<Rightarrow> string) \<Rightarrow> string \<Rightarrow> int \<Rightarrow> entry list \<Rightarrow> mem \<Rightarrow> mem \<Rightarrow> bool" where
  "identity_is sha1 garbage s fs d a v \<longleftrightarrow>
     (if last_entry ''info'' d = None then v = a
      else \<exists>d1 k x d2 fs' hs n. d = d1 @ (k, x) # d2 \<and> c_str (the k) = ''info'' \<and> last_entry ''info'' d2 = None \<and>
        entry_hashes s fs (info_entries d1) = Inr (fs', hs) \<and> info_size_of s fs' = Inr n \<and>
        hash_info sha1 garbage x n = Inr v)"

lemma last_entry_Cons:
  "last_entry key ((k, x) # d) =
     (case last_entry key d of None \<Rightarrow> if c_str (the k) = key then Some x else None | Some y \<Rightarrow> Some y)"
  by (auto simp: last_entry_def map_add_def split: option.splits)

lemma identity_is_other:
  assumes "identity_is sha1 garbage s fs d a v" and "c_str (the k) \<noteq> ''info''"
  shows "identity_is sha1 garbage s fs ((k, x) # d) a v"
proof (cases "last_entry ''info'' d")
  case None
  with assms show ?thesis by (simp add: identity_is_def last_entry_Cons)
next
  case (Some y)
  with assms(1) obtain d1 k' x' d2 fs' hs n where "d = d1 @ (k', x') # d2" "c_str (the k') = ''info''"
    "last_entry ''info'' d2 = None" "entry_hashes s fs (info_entries d1) = Inr (fs', hs)"
    "info_size_of s fs' = Inr n" "hash_info sha1 garbage x' n = Inr v"
    by (auto simp: identity_is_def)
  moreover have "info_entries ((k, x) # d1) = info_entries d1" using assms(2) by (simp add: info_entries_def)
  ultimately show ?thesis
    unfolding identity_is_def using Some
    by (simp add: last_entry_Cons) (metis append_Cons)
qed

lemma identity_is_info:
  assumes "identity_is sha1 garbage s f d b v" and "c_str (the k) = ''info''" and "x = BE_DICT e"
    and "info_size_of s fs = Inr n" and "hash_info sha1 garbage x n = Inr b"
    and "entry_hashes s fs (live e) = Inr (f, hs)"
  shows "identity_is sha1 garbage s fs ((k, x) # d) a v"
proof (cases "last_entry ''info'' d")
  case None
  have "entry_hashes s fs (info_entries []) = Inr (fs, [])" by (simp add: info_entries_def)
  with None assms show ?thesis
    unfolding identity_is_def by (simp add: last_entry_Cons) (metis append_Nil)
next
  case (Some y)
  with assms(1) obtain d1 k' x' d2 fs' hs' m where "d = d1 @ (k', x') # d2" "c_str (the k') = ''info''"
    "last_entry ''info'' d2 = None" "entry_hashes s f (info_entries d1) = Inr (fs', hs')"
    "info_size_of s fs' = Inr m" "hash_info sha1 garbage x' m = Inr v"
    by (auto simp: identity_is_def)
  moreover from this assms(6) have "entry_hashes s fs (info_entries ((k, x) # d1)) = Inr (fs', hs @ hs')"
    using assms(2,3) by (simp add: info_entries_def entry_hashes_append)
  ultimately show ?thesis
    unfolding identity_is_def using Some
    by (simp add: last_entry_Cons) (metis append_Cons)
qed

lemma parse_top_pieces:
  "parse_top sha1 garbage memblock d fsize m = Inr m' \<Longrightarrow>
     (\<exists>f hs. entry_hashes memblock fsize (info_entries d) = Inr (f, hs) \<and> pieces m' = pieces m @ hs) \<and>
     identity_is sha1 garbage memblock fsize d (info_hash m) (info_hash m')"
proof (induction d arbitrary: fsize m)
  case Nil
  then show ?case by (simp add: info_entries_def identity_is_def last_entry_def)
next
  case (Cons e d)
  obtain k x where e: "e = (k, x)" by (cases e)
  show ?case
  proof (cases "c_str (the k) = ''info''")
    case True
    with Cons.prems obtain n h info f b where 1: "info_size_of memblock fsize = Inr n"
      "hash_info sha1 garbage x n = Inr h" "val_d x = Inr info"
      and p: "parse_info memblock info fsize (m\<lparr>info_hash := h\<rparr>) = Inr (f, b)"
      and r: "parse_top sha1 garbage memblock d f b = Inr m'"
      by (auto simp: e elim!: and_then_InrE split: option.splits)
    from 1(3) val_d_dict obtain dd where x: "x = BE_DICT dd" "info = live dd" by blast
    from parse_info_pieces [OF p] obtain hs where hs: "entry_hashes memblock fsize (live dd) = Inr (f, hs)"
      "pieces b = pieces m @ hs" "info_hash b = h" by (auto simp: x)
    from Cons.IH [OF r] obtain f' hs' where "entry_hashes memblock f (info_entries d) = Inr (f', hs')"
      "pieces m' = pieces m @ hs @ hs'" using hs(2) by auto
    moreover have "info_entries (e # d) = live dd @ info_entries d" using True by (simp add: info_entries_def e x)
    moreover have "identity_is sha1 garbage memblock fsize (e # d) (info_hash m) (info_hash m')"
      unfolding e
      by (rule identity_is_info [OF _ True x(1) 1(1,2) hs(1)]) (use Cons.IH [OF r] hs(3) in simp)
    ultimately show ?thesis using hs(1) by (simp add: entry_hashes_append)
  next
    case False
    with Cons.prems obtain b where r: "parse_top sha1 garbage memblock d fsize b = Inr m'"
      and b: "pieces b = pieces m" "info_hash b = info_hash m"
      by (auto simp: e elim!: and_then_InrE split: option.splits if_splits)
    have "info_entries (e # d) = info_entries d" using False by (simp add: info_entries_def e)
    with Cons.IH [OF r] b identity_is_other [OF _ False] show ?thesis by (simp add: e)
  qed
qed

text \<open>C10: every field of a metafile that \<open>create_metafile\<close> returns, whatever the file. The fields but two are
  the value of the last entry with the field's key, converted to the field's type, and keep their
  initial value when there is none: no field is mixed up with another, in whatever order the entries come.
  The fields of the torrent are looked up in the \<open>info\<close> dictionary, the others at the top level. The
  hashes of the pieces are appended to the initial ones, entry by entry of \<open>pieces\<close>, as many as the
  number in the raw text says, and the info hash is that of the last \<open>info\<close> entry, over the size computed
  from the raw text.\<close>

theorem create_metafile_fields:
  assumes "create_metafile sha1 garbage uninit (Some s) = Inr m"
  shows "\<exists>d f hs. be_decoden s (int (length s)) = Inr (Some (BE_DICT d)) \<and>
    top_fields (live d) uninit m \<and> info_fields (info_entries (live d)) uninit m \<and>
    entry_hashes s (int (length s)) (info_entries (live d)) = Inr (f, hs) \<and> pieces m = pieces uninit @ hs \<and>
    identity_is sha1 garbage s (int (length s)) (live d) (info_hash uninit) (info_hash m)"
proof -
  from assms obtain n d where n: "be_decoden s (int (length s)) = Inr n" "and_then (deref_node n) val_d = Inr d"
    and t: "parse_top sha1 garbage s d (int (length s)) uninit = Inr m"
    by (auto simp: create_metafile_def elim!: and_then_InrE)
  from n(2) obtain x where "n = Some x" "val_d x = Inr d"
    by (auto simp: deref_node_def elim!: and_then_InrE split: option.splits)
  with val_d_dict obtain dd where "n = Some (BE_DICT dd)" "d = live dd" by blast
  with n(1) parse_top_fields [OF t] parse_top_pieces [OF t] show ?thesis by auto
qed

theorem create_metafile_fields_witness:
  "\<exists>m d f hs. create_metafile (\<lambda>s. replicate 20 0) (\<lambda>n. replicate n CHR ''?'') (metafile_init 0 0 0 0 (replicate 20 0))
     (Some (be_text (torrent_file ''t'' sample_info))) = Inr m \<and>
   top_fields (live d) (metafile_init 0 0 0 0 (replicate 20 0)) m \<and>
   entry_hashes (be_text (torrent_file ''t'' sample_info)) (int (length (be_text (torrent_file ''t'' sample_info))))
     (info_entries (live d)) = Inr (f, hs) \<and>
   pieces m = pieces (metafile_init 0 0 0 0 (replicate 20 0)) @ hs"
proof -
  obtain m where m: "create_metafile (\<lambda>s. replicate 20 0) (\<lambda>n. replicate n CHR ''?'') (metafile_init 0 0 0 0 (replicate 20 0))
     (Some (be_text (torrent_file ''t'' sample_info))) = Inr m" using sample_created by blast
  from create_metafile_fields [OF m] m show ?thesis by blast
qed

end
