(* ===== verification/MetaTorrents.thy ===== *)
theory MetaTorrents
  imports MetaFields BReencode
begin

text \<open>
  Whole torrent files, of one file or of several, with their entries in any order: that
  \<open>create_metafile\<close> reads them to the end, and what it makes of them.
\<close>

subsection \<open>Entries of the types the reader expects\<close>












subsection \<open>Typed entries are read\<close>














subsection \<open>Reading a torrent\<close>
























end
