(* ===== verification/MsgProtocol.thy ===== *)
theory MsgProtocol
  imports CMemory
begin

text \<open>
  The peer wire protocol of \<open>msg_protocol.cpp\<close>: the class \<open>MSG\<close>, its decoder and one
  encoder per message. Encoders write into the caller's buffer and report the message's size
  through a pointer; a buffer that is too small and a null size pointer are faults.
\<close>

subsection \<open>The message record\<close>

definition MAX_BLOCK :: nat where
  "MAX_BLOCK = 16384"

record MSG =
  lenPayload :: int32
  msgType :: int32
  index :: int32
  begin_off :: int32
  blockLen :: int32
  reqLen :: int32
  hash :: mem
  peerId :: mem
  block :: mem

text \<open>The arrays of the record have their declared sizes.\<close>

definition MSG_wf :: "MSG \<Rightarrow> bool" where
  "MSG_wf m \<longleftrightarrow> length (hash m) = 20 \<and> length (peerId m) = 20 \<and> length (block m) = MAX_BLOCK"

definition protocol_name :: mem where
  "protocol_name = map of_char ''BitTorrent protocol''"

subsection \<open>The decoder\<close>

text \<open>
  The copy loop of a piece message, \<open>for (int i = 14; i < (int)msgLength; i++)\<close>.
\<close>

function copy_block :: "mem \<Rightarrow> mem \<Rightarrow> int \<Rightarrow> int \<Rightarrow> mem res" where
  "copy_block msg blk i n =
     (if i < n
      then and_then (load msg (nat i)) (\<lambda>b.
           and_then (store blk (nat (i - 14)) b) (\<lambda>blk'.
           copy_block msg blk' (i + 1) n))
      else Inr blk)"
  by pat_completeness auto
termination
  by (relation "measure (\<lambda>(msg, blk, i, n). nat (n - i))") auto

declare copy_block.simps [simp del]

text \<open>
  \<open>MSG::decode\<close>. The returned object starts with indeterminate fields (\<open>retMsg0\<close>), and so
  does the last byte of the local \<open>char chr[20]\<close> (\<open>chr19\<close>), of which only 19 bytes are
  copied before \<open>strcmp\<close> reads it.
\<close>

definition MSG_decode :: "MSG \<Rightarrow> byte \<Rightarrow> mem \<Rightarrow> int64 \<Rightarrow> MSG res" where
  "MSG_decode retMsg0 chr19 msg msgLength =
     and_then (load msg 0) (\<lambda>b0.
     if b0 = 19 then
       and_then (load_n msg 1 19) (\<lambda>chr.
       and_then (strcmp_eq (chr @ [chr19]) (protocol_name @ [0])) (\<lambda>same.
       if \<not> same then
         and_then (load_n msg 28 20) (\<lambda>h.
         and_then (load_n msg 48 20) (\<lambda>p.
         Inr (retMsg0\<lparr>hash := h, peerId := p\<rparr>)))
       else Inr retMsg0))
     else
       and_then (load32 msg 0) (\<lambda>len.
       let m1 = retMsg0\<lparr>lenPayload := len\<rparr> in
       if len = 0 then Inr m1
       else if len = 1 \<or> len = 5 then
         and_then (load msg 4) (\<lambda>t. Inr (m1\<lparr>msgType := ucast t\<rparr>))
       else if len = 13 then
         and_then (load msg 4) (\<lambda>t.
         and_then (load32 msg 5) (\<lambda>ix.
         and_then (load32 msg 9) (\<lambda>bg.
         and_then (load32 msg 13) (\<lambda>rl.
         Inr (m1\<lparr>msgType := ucast t, index := ix, begin_off := bg, reqLen := rl\<rparr>)))))
       else
         and_then (load msg 4) (\<lambda>t.
         and_then (load msg 5) (\<lambda>ix.
         and_then (load msg 9) (\<lambda>bg.
         let m2 = m1\<lparr>msgType := ucast t, index := ucast ix, begin_off := ucast bg\<rparr> in
         if t = 5 then Inr m2
         else if t = 7 then
           and_then (copy_block msg (replicate MAX_BLOCK 0) 14 (sint (ucast msgLength :: int32)))
             (\<lambda>blk. Inr (m2\<lparr>block := blk, blockLen := ucast (msgLength - 14)\<rparr>))
         else Inr m2)))))"

subsection \<open>The encoders\<close>

definition MSG_handshake :: "mem \<Rightarrow> size_ptr \<Rightarrow> mem \<Rightarrow> mem \<Rightarrow> (mem \<times> size_ptr) res" where
  "MSG_handshake msg msgByte h pid =
     and_then (bzero msg 68) (\<lambda>msg.
     and_then (store msg 0 19) (\<lambda>msg.
     and_then (store_n msg 1 protocol_name) (\<lambda>msg.
     and_then (load_n h 0 20) (\<lambda>h20.
     and_then (store_n msg 28 h20) (\<lambda>msg.
     and_then (load_n pid 0 20) (\<lambda>p20.
     and_then (store_n msg 48 p20) (\<lambda>msg.
     and_then (put_size msgByte 68) (\<lambda>sz. Inr (msg, sz)))))))))"

definition MSG_keepAlive :: "mem \<Rightarrow> size_ptr \<Rightarrow> (mem \<times> size_ptr) res" where
  "MSG_keepAlive msg msgByte =
     and_then (bzero msg 4) (\<lambda>msg. and_then (put_size msgByte 4) (\<lambda>sz. Inr (msg, sz)))"

definition MSG_choke :: "mem \<Rightarrow> size_ptr \<Rightarrow> (mem \<times> size_ptr) res" where
  "MSG_choke msg msgByte =
     and_then (bzero msg 5) (\<lambda>msg.
     and_then (store32 msg 0 1) (\<lambda>msg.
     and_then (put_size msgByte 5) (\<lambda>sz. Inr (msg, sz))))"

definition MSG_unchoke :: "mem \<Rightarrow> size_ptr \<Rightarrow> (mem \<times> size_ptr) res" where
  "MSG_unchoke msg msgByte =
     and_then (bzero msg 5) (\<lambda>msg.
     and_then (store32 msg 0 1) (\<lambda>msg.
     and_then (store msg 4 1) (\<lambda>msg.
     and_then (put_size msgByte 5) (\<lambda>sz. Inr (msg, sz)))))"

definition MSG_interested :: "mem \<Rightarrow> size_ptr \<Rightarrow> (mem \<times> size_ptr) res" where
  "MSG_interested msg msgByte =
     and_then (bzero msg 5) (\<lambda>msg.
     and_then (store32 msg 0 1) (\<lambda>msg.
     and_then (store msg 4 2) (\<lambda>msg.
     and_then (put_size msgByte 5) (\<lambda>sz. Inr (msg, sz)))))"

definition MSG_notInterested :: "mem \<Rightarrow> size_ptr \<Rightarrow> (mem \<times> size_ptr) res" where
  "MSG_notInterested msg msgByte =
     and_then (bzero msg 5) (\<lambda>msg.
     and_then (store32 msg 0 1) (\<lambda>msg.
     and_then (store msg 4 3) (\<lambda>msg.
     and_then (put_size msgByte 5) (\<lambda>sz. Inr (msg, sz)))))"

definition MSG_have :: "mem \<Rightarrow> size_ptr \<Rightarrow> int32 \<Rightarrow> (mem \<times> size_ptr) res" where
  "MSG_have msg msgByte ix =
     and_then (bzero msg 9) (\<lambda>msg.
     and_then (store32 msg 0 5) (\<lambda>msg.
     and_then (store msg 4 4) (\<lambda>msg.
     and_then (store32 msg 5 ix) (\<lambda>msg.
     and_then (put_size msgByte 9) (\<lambda>sz. Inr (msg, sz))))))"

definition MSG_request ::
  "mem \<Rightarrow> size_ptr \<Rightarrow> int32 \<Rightarrow> int32 \<Rightarrow> int32 \<Rightarrow> (mem \<times> size_ptr) res" where
  "MSG_request msg msgByte ix bg len =
     and_then (bzero msg 13) (\<lambda>msg.
     and_then (store32 msg 0 13) (\<lambda>msg.
     and_then (store msg 4 6) (\<lambda>msg.
     and_then (store32 msg 5 ix) (\<lambda>msg.
     and_then (store32 msg 9 bg) (\<lambda>msg.
     and_then (store32 msg 13 len) (\<lambda>msg.
     and_then (put_size msgByte 17) (\<lambda>sz. Inr (msg, sz))))))))"

definition MSG_bitfield :: "mem \<Rightarrow> size_ptr \<Rightarrow> (mem \<times> size_ptr) res" where
  "MSG_bitfield msg msgByte = Inr (msg, msgByte)"

definition MSG_cancel ::
  "mem \<Rightarrow> size_ptr \<Rightarrow> int32 \<Rightarrow> int32 \<Rightarrow> int32 \<Rightarrow> (mem \<times> size_ptr) res" where
  "MSG_cancel msg msgByte ix bg len =
     and_then (bzero msg 13) (\<lambda>msg.
     and_then (store32 msg 0 13) (\<lambda>msg.
     and_then (store msg 4 8) (\<lambda>msg.
     and_then (store32 msg 5 ix) (\<lambda>msg.
     and_then (store32 msg 9 bg) (\<lambda>msg.
     and_then (store32 msg 13 len) (\<lambda>msg.
     and_then (put_size msgByte 17) (\<lambda>sz. Inr (msg, sz))))))))"

text \<open>
  \<open>MSG::piece\<close>. The length arithmetic is on \<open>int\<close> (an overflow is undefined) and the
  sizes handed to \<open>bzero\<close> and stored through \<open>msgByte\<close> are converted to \<open>size_t\<close>, so a
  negative count becomes a huge one. The copy loop reads \<open>block[begin]\<close> onwards.
\<close>

definition checked_int :: "int \<Rightarrow> int32 res" where
  "checked_int i = (if - (2 ^ 31) \<le> i \<and> i < 2 ^ 31 then Inr (word_of_int i) else Inl SignedOverflow)"

primrec piece_loop :: "nat \<Rightarrow> mem \<Rightarrow> mem \<Rightarrow> int \<Rightarrow> nat \<Rightarrow> mem res" where
  "piece_loop 0 msg blk bg i = Inr msg"
| "piece_loop (Suc k) msg blk bg i =
     (if bg < 0 then Inl OutOfBounds
      else and_then (load blk (nat bg)) (\<lambda>b.
           and_then (store msg (14 + i) b) (\<lambda>msg.
           piece_loop k msg blk (bg + 1) (Suc i))))"

definition MSG_piece ::
  "mem \<Rightarrow> size_ptr \<Rightarrow> int32 \<Rightarrow> int32 \<Rightarrow> mem \<Rightarrow> int32 \<Rightarrow> (mem \<times> size_ptr) res" where
  "MSG_piece msg msgByte ix bg blk bl =
     and_then (checked_int (sint bl + 13)) (\<lambda>total.
     and_then (bzero msg (unat (scast total :: int64))) (\<lambda>msg.
     and_then (store32 msg 0 (bl + 9)) (\<lambda>msg.
     and_then (store msg 5 7) (\<lambda>msg.
     and_then (store32 msg 6 ix) (\<lambda>msg.
     and_then (store32 msg 10 bg) (\<lambda>msg.
     and_then (piece_loop (nat (sint bl)) msg blk (sint bg) 0) (\<lambda>msg.
     and_then (put_size msgByte (scast total)) (\<lambda>sz. Inr (msg, sz)))))))))"

subsection \<open>Frames\<close>

text \<open>
  The byte layout the protocol specification gives to each message, independent of how the
  encoders produce it.
\<close>

lemma length_protocol_name [simp]: "length protocol_name = 19"
  by (simp add: protocol_name_def)

lemma protocol_name_bytes [wire_simps]:
  "protocol_name =
     [66, 105, 116, 84, 111, 114, 114, 101, 110, 116, 32, 112, 114, 111, 116, 111, 99, 111, 108]"
  by (simp add: protocol_name_def)

lemma protocol_name_nonzero: "\<forall>b \<in> set protocol_name. b \<noteq> 0"
  by (simp add: protocol_name_bytes)

lemma replicate_bytes [wire_simps]:
  "replicate 4 x = [x, x, x, x]"
  "replicate 5 x = [x, x, x, x, x]"
  "replicate 8 x = [x, x, x, x, x, x, x, x]"
  "replicate 9 x = [x, x, x, x, x, x, x, x, x]"
  "replicate 13 x = [x, x, x, x, x, x, x, x, x, x, x, x, x]"
  by (simp_all add: numeral_eq_Suc)

definition frame_bare :: "byte \<Rightarrow> mem" where
  "frame_bare t = be32 1 @ [t]"

definition frame_have :: "int32 \<Rightarrow> mem" where
  "frame_have ix = be32 5 @ [4] @ be32 ix"

definition frame_block :: "byte \<Rightarrow> int32 \<Rightarrow> int32 \<Rightarrow> int32 \<Rightarrow> mem" where
  "frame_block t ix bg len = be32 13 @ [t] @ be32 ix @ be32 bg @ be32 len"

definition frame_handshake :: "mem \<Rightarrow> mem \<Rightarrow> mem" where
  "frame_handshake h pid = [19] @ protocol_name @ replicate 8 0 @ h @ pid"

lemma length_frames [simp]:
  "length (frame_bare t) = 5"
  "length (frame_have ix) = 9"
  "length (frame_block t ix bg len) = 17"
  "length h = 20 \<Longrightarrow> length pid = 20 \<Longrightarrow> length (frame_handshake h pid) = 68"
  by (simp_all add: frame_bare_def frame_have_def frame_block_def frame_handshake_def)

lemmas frame_defs = frame_bare_def frame_have_def frame_block_def frame_handshake_def

lemmas encode_run = mem_simps wire_simps frame_defs be32_def bzero_out

subsection \<open>Writers and readable messages\<close>

text \<open>
  What every encoder of the class promises its caller: it succeeds exactly when the buffer
  holds the frame and the size pointer is not null, writes the frame and nothing behind it,
  and reports the frame's length. A readable message is one whose frame the decoder turns
  into a known update of the message object.
\<close>

locale message_writer =
  fixes enc :: "mem \<Rightarrow> size_ptr \<Rightarrow> (mem \<times> size_ptr) res"
    and frame :: mem
  assumes enc_fits: "length frame \<le> length m \<Longrightarrow>
      enc m (Some s) = Inr (frame @ drop (length frame) m, Some (of_nat (length frame)))"
    and enc_null: "length frame \<le> length m \<Longrightarrow> enc m None = Inl NullDeref"
    and enc_short: "length m < length frame \<Longrightarrow> enc m p = Inl OutOfBounds"
begin

lemma enc_ok_iff: "(\<exists>r. enc m p = Inr r) \<longleftrightarrow> length frame \<le> length m \<and> p \<noteq> None"
  by (cases p; cases "length frame \<le> length m") (simp_all add: enc_fits enc_null enc_short)

lemma enc_exact:
  "enc m p = (if length m < length frame then Inl OutOfBounds else if p = None then Inl NullDeref
     else Inr (frame @ drop (length frame) m, Some (of_nat (length frame))))"
  by (cases p) (simp_all add: enc_fits enc_null enc_short)

lemma enc_frame:
  assumes "enc m p = Inr (m', q)"
  shows "m' = frame @ drop (length frame) m" and "q = Some (of_nat (length frame))"
    and "length m' = length m"
proof -
  from assms have *: "length frame \<le> length m" "p \<noteq> None"
    using enc_ok_iff [of m p] by auto
  then obtain s where "p = Some s" by blast
  with * assms show "m' = frame @ drop (length frame) m" "q = Some (of_nat (length frame))"
    by (simp_all add: enc_fits)
  with * show "length m' = length m" by simp
qed

lemma enc_twice:
  "enc m p = Inr (m', q) \<Longrightarrow> enc m' q = Inr (m', q)"
  using enc_ok_iff [of m p] by (auto simp: enc_fits dest: enc_frame)

end

locale readable_message = message_writer enc frame
  for enc :: "mem \<Rightarrow> size_ptr \<Rightarrow> (mem \<times> size_ptr) res" and frame :: mem +
  fixes upd :: "MSG \<Rightarrow> MSG"
  assumes decode_frame: "MSG_decode m0 c (frame @ rest) n = Inr (upd m0)"
begin

lemma decode_written: "enc m p = Inr (m', q) \<Longrightarrow> MSG_decode m0 c m' n = Inr (upd m0)"
  by (drule enc_frame(1)) (simp add: decode_frame)

end

lemma be32_first [wire_simps]: "be32 w ! 0 = ucast (drop_bit 24 w)"
  by (simp add: be32_def)

lemmas decode_run = MSG_decode_def mem_simps frame_defs be32_first nth_append

lemma decode_bare:
  "MSG_decode m0 c (frame_bare t @ rest) n = Inr (m0\<lparr>lenPayload := 1, msgType := ucast t\<rparr>)"
  by (simp add: decode_run)

lemma decode_have:
  "MSG_decode m0 c (frame_have ix @ rest) n = Inr (m0\<lparr>lenPayload := 5, msgType := 4\<rparr>)"
  by (simp add: decode_run)

lemma decode_block:
  "MSG_decode m0 c (frame_block t ix bg len @ rest) n =
     Inr (m0\<lparr>lenPayload := 13, msgType := ucast t, index := ix, begin_off := bg, reqLen := len\<rparr>)"
  by (simp add: decode_run)

interpretation choke: readable_message MSG_choke "frame_bare 0"
    "\<lambda>m. m\<lparr>lenPayload := 1, msgType := 0\<rparr>"
  by (unfold_locales; (unfold length_frames)?)
    (simp_all add: decode_bare, simp_all add: MSG_choke_def encode_run)

interpretation unchoke: readable_message MSG_unchoke "frame_bare 1"
    "\<lambda>m. m\<lparr>lenPayload := 1, msgType := 1\<rparr>"
  by (unfold_locales; (unfold length_frames)?)
    (simp_all add: decode_bare, simp_all add: MSG_unchoke_def encode_run)

interpretation interested: readable_message MSG_interested "frame_bare 2"
    "\<lambda>m. m\<lparr>lenPayload := 1, msgType := 2\<rparr>"
  by (unfold_locales; (unfold length_frames)?)
    (simp_all add: decode_bare, simp_all add: MSG_interested_def encode_run)

interpretation notInterested: readable_message MSG_notInterested "frame_bare 3"
    "\<lambda>m. m\<lparr>lenPayload := 1, msgType := 3\<rparr>"
  by (unfold_locales; (unfold length_frames)?)
    (simp_all add: decode_bare, simp_all add: MSG_notInterested_def encode_run)

interpretation have_msg: readable_message "\<lambda>m p. MSG_have m p ix" "frame_have ix"
    "\<lambda>m. m\<lparr>lenPayload := 5, msgType := 4\<rparr>" for ix
  by (unfold_locales; (unfold length_frames)?)
    (simp_all add: decode_have, simp_all add: MSG_have_def encode_run)

lemma request_short: "length m < 17 \<Longrightarrow> MSG_request m p ix bg len = Inl OutOfBounds"
  by (cases "13 \<le> length m") (simp_all add: MSG_request_def mem_simps bzero_out)

interpretation request: readable_message "\<lambda>m p. MSG_request m p ix bg len" "frame_block 6 ix bg len"
    "\<lambda>m. m\<lparr>lenPayload := 13, msgType := 6, index := ix, begin_off := bg, reqLen := len\<rparr>" for ix bg len
  by (unfold_locales; (unfold length_frames)?)
    (simp_all add: decode_block request_short, simp_all add: MSG_request_def encode_run)

lemma cancel_short: "length m < 17 \<Longrightarrow> MSG_cancel m p ix bg len = Inl OutOfBounds"
  by (cases "13 \<le> length m") (simp_all add: MSG_cancel_def mem_simps bzero_out)

interpretation cancel: readable_message "\<lambda>m p. MSG_cancel m p ix bg len" "frame_block 8 ix bg len"
    "\<lambda>m. m\<lparr>lenPayload := 13, msgType := 8, index := ix, begin_off := bg, reqLen := len\<rparr>" for ix bg len
  by (unfold_locales; (unfold length_frames)?)
    (simp_all add: decode_block cancel_short, simp_all add: MSG_cancel_def encode_run)

lemma decode_keepAlive:
  "MSG_decode m0 c (be32 0 @ rest) n = Inr (m0\<lparr>lenPayload := 0\<rparr>)"
  by (simp add: decode_run)

interpretation keepAlive: readable_message MSG_keepAlive "be32 0" "\<lambda>m. m\<lparr>lenPayload := 0\<rparr>"
  by (unfold_locales; (unfold length_be32)?)
    (simp_all add: decode_keepAlive, simp_all add: MSG_keepAlive_def encode_run)

lemma zeros68: "replicate 68 (0 :: byte) = 0 # replicate 67 0"
  by (simp add: numeral_eq_Suc)

lemma handshake_writer:
  assumes "length h = 20" and "length pid = 20"
  shows "message_writer (\<lambda>m p. MSG_handshake m p h pid) (frame_handshake h pid)"
  using assms
  by (unfold_locales; (unfold length_frames(4) [OF assms])?)
    (simp_all add: MSG_handshake_def frame_handshake_def bzero_out mem_simps zeros68)

subsection \<open>The copy loops\<close>

lemma copy_block_run:
  assumes "14 \<le> a" and "a \<le> b" and "b \<le> length msg" and "b - 14 \<le> length blk"
  shows "copy_block msg blk (int a) (int b) =
     Inr (take (a - 14) blk @ take (b - a) (drop a msg) @ drop (b - 14) blk)"
  using assms
proof (induction "b - a" arbitrary: a blk)
  case 0
  then show ?case by (simp add: copy_block.simps)
next
  case (Suc k)
  then have lt: "a < b" and k: "k = b - Suc a" by auto
  have sub: "nat (int a - 14) = a - 14" using Suc.prems(1) by simp
  let ?blk = "blk[a - 14 := msg ! a]"
  have "copy_block msg blk (int a) (int b) = copy_block msg ?blk (int (Suc a)) (int b)"
    using lt Suc.prems
    by (subst copy_block.simps) (simp add: load_in store_in sub add.commute)
  also have "\<dots> = Inr (take (Suc a - 14) ?blk @ take (b - Suc a) (drop (Suc a) msg) @ drop (b - 14) ?blk)"
    using Suc.hyps(1) [OF k] Suc.prems lt by simp
  also have "take (Suc a - 14) ?blk = take (a - 14) blk @ [msg ! a]"
    using Suc.prems lt by (simp only: Suc_diff_le) (rule take_update_snoc, simp)
  also have "drop (b - 14) ?blk = drop (b - 14) blk"
    using lt Suc.prems by (simp add: drop_update_cancel)
  also have "take (b - a) (drop a msg) = msg ! a # take (b - Suc a) (drop (Suc a) msg)"
    using lt Suc.prems take_Suc_drop [of a msg "b - Suc a"] by (simp add: Suc_diff_Suc)
  ultimately show ?case by simp
qed

lemma copy_block_empty: "b \<le> a \<Longrightarrow> copy_block msg blk a b = Inr blk"
  by (simp add: copy_block.simps)

text \<open>The copy runs off the message or off the block, whichever ends first.\<close>

lemma copy_block_faults:
  assumes "14 \<le> a" and "a < b" and "length msg < b \<or> 14 + length blk < b"
  shows "copy_block msg blk (int a) (int b) = Inl OutOfBounds"
  using assms
proof (induction "b - a" arbitrary: a blk)
  case 0
  then show ?case by simp
next
  case (Suc k)
  then have k: "k = b - Suc a" by auto
  have sub: "nat (int a - 14) = a - 14" using Suc.prems(1) by simp
  show ?case
  proof (cases "a < length msg \<and> a < 14 + length blk")
    case True
    then have "store blk (a - 14) (msg ! a) = Inr (blk[a - 14 := msg ! a])"
      using Suc.prems(1) by (intro store_in) auto
    then have "copy_block msg blk (int a) (int b) = copy_block msg (blk[a - 14 := msg ! a]) (int (Suc a)) (int b)"
      using True Suc.prems by (subst copy_block.simps) (simp add: load_in sub add.commute)
    also have "\<dots> = Inl OutOfBounds"
      using Suc.prems True by (intro Suc.hyps(1) [OF k]) auto
    finally show ?thesis .
  next
    case False
    with Suc.prems show ?thesis
      by (subst copy_block.simps) (auto simp: load_def store_def sub)
  qed
qed

lemma piece_loop_run:
  assumes "length p = 14 + i" and "k \<le> length r" and "b + k \<le> length blk"
  shows "piece_loop k (p @ r) blk (int b) i = Inr (p @ take k (drop b blk) @ drop k r)"
  using assms
proof (induction k arbitrary: p r b i)
  case 0
  then show ?case by simp
next
  case (Suc k)
  then obtain y r' where r: "r = y # r'" by (cases r) auto
  have "piece_loop (Suc k) (p @ r) blk (int b) i = piece_loop k ((p @ [blk ! b]) @ r') blk (int (Suc b)) (Suc i)"
    using Suc.prems by (simp add: r load_in store_in list_update_append add.commute)
  also have "\<dots> = Inr ((p @ [blk ! b]) @ take k (drop (Suc b) blk) @ drop k r')"
    using Suc.prems r by (intro Suc.IH) auto
  also have "(p @ [blk ! b]) @ take k (drop (Suc b) blk) = p @ take (Suc k) (drop b blk)"
    using Suc.prems by (simp add: take_Suc_drop)
  ultimately show ?case by (simp add: r)
qed

subsection \<open>Piece messages, decoding of handshakes, safety of the decoder\<close>

definition frame_piece :: "int32 \<Rightarrow> int32 \<Rightarrow> mem \<Rightarrow> mem" where
  "frame_piece ix bg data = be32 (of_nat (9 + length data)) @ [7] @ be32 ix @ be32 bg @ data"

definition piece_image :: "int32 \<Rightarrow> int32 \<Rightarrow> mem \<Rightarrow> mem" where
  "piece_image ix bg data =
     be32 (of_nat (9 + length data)) @ [0, 7] @ be32 ix @ be32 bg @ data"

lemma length_piece_image [simp]: "length (piece_image ix bg data) = length data + 14"
  by (simp add: piece_image_def)

lemma MSG_piece_writes:
  assumes bl: "sint bl = int k" and bg: "sint bg = int b"
    and small: "k \<le> MAX_BLOCK" and src: "b + k \<le> length blk" and dst: "k + 14 \<le> length m"
  shows "MSG_piece m (Some s) ix bg blk bl =
     Inr (piece_image ix bg (take k (drop b blk)) @ drop (k + 14) m, Some (of_nat (k + 13)))"
proof -
  have k: "k + 13 < 2 ^ 20" using small by (simp add: MAX_BLOCK_def)
  then have total: "checked_int (sint bl + 13) = Inr (of_nat (k + 13))"
    by (simp add: checked_int_def bl)
  have sz: "scast (of_nat (k + 13) :: int32) = (of_nat (k + 13) :: int64)"
    using k by (intro scast_of_nat) simp
  have un: "unat (of_nat (k + 13) :: int64) = k + 13"
    using k by (intro unat64_of_nat) simp
  obtain p z r where m: "m = p @ z # r" and p: "length p = k + 13"
    using dst id_take_nth_drop [of "k + 13" m] by force
  have z: "replicate (k + 13) 0 = replicate 13 0 @ replicate k (0 :: byte)"
    by (simp add: replicate_add [symmetric] add.commute)
  let ?hd = "be32 (bl + 9) @ [0, 7] @ be32 ix @ be32 bg"
  have "length p + 1 = 14 + k" using p by simp
  have steps: "MSG_piece m (Some s) ix bg blk bl =
     and_then (piece_loop k (?hd @ drop 14 (replicate (k + 13) 0 @ z # r)) blk (int b) 0)
       (\<lambda>msg. Inr (msg, Some (of_nat (k + 13))))"
    unfolding MSG_piece_def total and_then_simps sz un
    by (simp add: bzero_in m p z wire_simps mem_simps be32_def bl bg)
  also have "piece_loop k (?hd @ drop 14 (replicate (k + 13) 0 @ z # r)) blk (int b) 0 =
     Inr (?hd @ take k (drop b blk) @ drop k (drop 14 (replicate (k + 13) 0 @ z # r)))"
    using src by (intro piece_loop_run) simp_all
  also have "drop k (drop 14 (replicate (k + 13) 0 @ z # r)) = drop (k + 14) m"
    by (simp only: drop_drop, simp add: m p add.commute)
  finally show ?thesis
    using src by (simp add: piece_image_def sint32_eq_of_nat [OF bl] add.commute)
qed

lemma be32_small_first:
  assumes "n < 2 ^ 24"
  shows "be32 (of_nat n) ! 0 = 0"
proof -
  have "drop_bit 24 (of_nat n :: int32) = 0"
    using assms by (simp add: drop_bit_eq_div div_word_less word_less_nat_alt unat32_of_nat)
  then show ?thesis by (simp add: be32_first)
qed

lemma decode_piece_image:
  assumes "length data \<le> MAX_BLOCK"
  shows "\<exists>m. MSG_decode m0 c (piece_image ix bg data @ rest) n = Inr m \<and>
      msgType m = 0 \<and> block m = block m0 \<and> blockLen m = blockLen m0"
proof -
  let ?len = "of_nat (9 + length data) :: int32"
  have small: "9 + length data < 2 ^ 24" using assms by (simp add: MAX_BLOCK_def)
  have first: "be32 ?len ! 0 = 0" by (rule be32_small_first [OF small])
  have ne: "?len \<noteq> 0" "?len \<noteq> 1" "?len \<noteq> 5"
    using small of_nat32_eq_iff [of "9 + length data" 0] of_nat32_eq_iff [of "9 + length data" 1]
      of_nat32_eq_iff [of "9 + length data" 5] by auto
  show ?thesis
    using assms first ne
    by (simp add: MSG_decode_def piece_image_def mem_simps nth_append Let_def)
      (use small of_nat32_eq_iff [of "length data" 4] in \<open>auto simp: load32_in\<close>)
qed

text \<open>A piece message as the specification frames it, read back by the decoder.\<close>

lemma decode_frame_piece:
  assumes len: "length data \<le> MAX_BLOCK" and four: "length data \<noteq> 4" and ne: "data \<noteq> []"
    and n: "n = of_nat (13 + length data)"
  shows "MSG_decode m0 c (frame_piece ix bg data) n =
     Inr (m0\<lparr>lenPayload := of_nat (9 + length data), msgType := 7,
             index := ucast (be32 ix ! 0 :: byte), begin_off := ucast (be32 bg ! 0 :: byte),
             block := tl data @ replicate (MAX_BLOCK - length (tl data)) 0,
             blockLen := of_nat (length data - 1)\<rparr>)"
proof -
  let ?len = "of_nat (9 + length data) :: int32"
  have small: "9 + length data < 2 ^ 24" using len by (simp add: MAX_BLOCK_def)
  have first: "be32 ?len ! 0 = 0" by (rule be32_small_first [OF small])
  have ne': "?len \<noteq> 0" "?len \<noteq> 1" "?len \<noteq> 5" "?len \<noteq> 13"
    using small four of_nat32_eq_iff [of "9 + length data" 0] of_nat32_eq_iff [of "9 + length data" 1]
      of_nat32_eq_iff [of "9 + length data" 5] of_nat32_eq_iff [of "9 + length data" 13] by auto
  have sn: "sint (ucast n :: int32) = int (13 + length data)"
    unfolding n using small by (subst ucast_of_nat_32, simp, subst sint32_of_nat) simp_all
  obtain d ds where data: "data = d # ds" using ne by (cases data) auto
  have n14: "ucast (n - 14) = (of_nat (length data - 1) :: int32)"
  proof -
    have "n - 14 = of_nat (length data - 1)" by (simp add: n data)
    then show ?thesis using small by (simp add: ucast_of_nat_32 data)
  qed
  have "copy_block (frame_piece ix bg data) (replicate MAX_BLOCK 0) (int 14) (int (13 + length data)) =
     Inr (take (14 - 14) (replicate MAX_BLOCK 0) @ take (13 + length data - 14) (drop 14 (frame_piece ix bg data)) @
       drop (13 + length data - 14) (replicate MAX_BLOCK 0))"
    using len by (intro copy_block_run) (simp_all add: frame_piece_def data)
  then have copy: "copy_block (frame_piece ix bg data) (replicate MAX_BLOCK 0) 14 (int (13 + length data)) =
     Inr (ds @ replicate (MAX_BLOCK - length ds) 0)"
    by (simp add: frame_piece_def data drop_append)
  show ?thesis
    unfolding MSG_decode_def sn copy n14
    using first ne' by (simp add: frame_piece_def mem_simps nth_append data)
qed

lemma copy_block_length: "copy_block msg blk i n = Inr blk' \<Longrightarrow> length blk' = length blk"
proof (induction msg blk i n arbitrary: blk' rule: copy_block.induct)
  case (1 msg blk i n)
  show ?case
  proof (cases "i < n")
    case True
    with "1.prems" obtain b blk1 where "load msg (nat i) = Inr b" "store blk (nat (i - 14)) b = Inr blk1"
      "copy_block msg blk1 (i + 1) n = Inr blk'"
      by (subst (asm) copy_block.simps) (auto elim!: and_then_InrE)
    with "1.IH" [OF True] show ?thesis by (auto dest: store_length)
  next
    case False
    with "1.prems" show ?thesis by (simp add: copy_block.simps)
  qed
qed

lemma load_n_length: "load_n m i n = Inr xs \<Longrightarrow> length xs = n"
  by (auto simp: load_n_def split: if_splits)

lemma MSG_decode_wf:
  assumes "MSG_decode m0 c msg n = Inr m" and "MSG_wf m0"
  shows "MSG_wf m"
  using assms
  by (auto simp: MSG_decode_def MSG_wf_def Let_def elim!: and_then_InrE split: if_splits)
    (auto dest: load_n_length copy_block_length)

lemma strcmp_eq_same_length:
  "length xs = length ys \<Longrightarrow> \<forall>y \<in> set ys. y \<noteq> 0 \<Longrightarrow>
     strcmp_eq (xs @ [x]) (ys @ [0]) = Inr (xs = ys \<and> x = 0)"
  by (induction xs ys rule: list_induct2) auto

lemma sint_ucast_small:
  assumes "unat (n :: int64) < 2 ^ 31"
  shows "sint (ucast n :: int32) = int (unat n)"
proof -
  have "ucast n = (of_nat (unat n) :: int32)"
    using assms ucast_of_nat_32 [of "unat n"] by simp
  then show ?thesis using sint32_of_nat [OF assms] by (simp only:)
qed

lemma copy_block_exact:
  assumes "unat (n :: int64) < 2 ^ 31"
  shows "if 14 < unat n \<and> (length msg < unat n \<or> 14 + length blk < unat n)
    then copy_block msg blk 14 (sint (ucast n :: int32)) = Inl OutOfBounds
    else \<exists>blk'. copy_block msg blk 14 (sint (ucast n :: int32)) = Inr blk'"
proof (cases "unat n \<le> 14")
  case True
  then have "int (unat n) \<le> 14" by linarith
  from copy_block_empty [OF this] show ?thesis
    unfolding sint_ucast_small [OF assms(1)] using True by simp
next
  case False
  then show ?thesis
    unfolding sint_ucast_small [OF assms(1)]
    using copy_block_faults [of 14 "unat n" msg blk] copy_block_run [of 14 "unat n" msg blk] by auto
qed

text \<open>
  How many bytes of its buffer the decoder reads, and the messages whose data it copies into the
  block of the result. A message of any other length than 0, 1, 5 and 13 is taken to have ten bytes.
\<close>

definition decoder_reads :: "byte \<Rightarrow> mem \<Rightarrow> int64 \<Rightarrow> nat" where
  "decoder_reads c msg n =
     (if msg ! 0 = 19 then (if take 19 (drop 1 msg) = protocol_name \<and> c = 0 then 20 else 68)
      else let len = of_be32 (take 4 msg) in
        if len = 0 then 4
        else if len = 1 \<or> len = 5 then 5
        else if len = 13 then 17
        else if msg ! 4 = 7 \<and> 14 < unat n then unat n
        else 10)"

definition carries_block :: "mem \<Rightarrow> bool" where
  "carries_block msg \<longleftrightarrow> msg ! 0 \<noteq> 19 \<and> of_be32 (take 4 msg) \<notin> {0, 1, 5, 13} \<and> msg ! 4 = 7"

lemma load_n_out: "length m < i + n \<Longrightarrow> load_n m i n = Inl OutOfBounds"
  by (simp add: load_n_def)

lemma load32_out: "length m < i + 4 \<Longrightarrow> load32 m i = Inl OutOfBounds"
  by (simp add: load32_def load_n_def)

lemmas access_out = load_out load_n_out load32_out

lemma decode_handshake_exact:
  assumes "msg ! 0 = 19"
  shows "if length msg < decoder_reads c msg n then MSG_decode m0 c msg n = Inl OutOfBounds
    else \<exists>r. MSG_decode m0 c msg n = Inr r"
proof (cases "20 \<le> length msg")
  case True
  let ?name = "take 19 (drop 1 msg)"
  have "strcmp_eq (?name @ [c]) (protocol_name @ [0]) = Inr (?name = protocol_name \<and> c = 0)"
    using True by (intro strcmp_eq_same_length protocol_name_nonzero) simp
  moreover have "load msg 0 = Inr 19" "load_n msg 1 19 = Inr ?name"
    using True assms by (auto simp: load_def load_n_def)
  ultimately have run: "MSG_decode m0 c msg n =
      (if ?name = protocol_name \<and> c = 0 then Inr m0
       else and_then (load_n msg 28 20) (\<lambda>h. and_then (load_n msg 48 20) (\<lambda>p.
         Inr (m0\<lparr>hash := h, peerId := p\<rparr>))))"
    by (simp add: MSG_decode_def)
  show ?thesis
  proof (cases "68 \<le> length msg")
    case True
    then show ?thesis unfolding run by (simp add: decoder_reads_def assms load_n_in)
  next
    case False
    then show ?thesis
      unfolding run using \<open>20 \<le> length msg\<close>
      by (cases "48 \<le> length msg") (simp_all add: decoder_reads_def assms load_n_in load_n_out)
  qed
next
  case False
  then have "MSG_decode m0 c msg n = Inl OutOfBounds"
    using assms by (cases "msg = []") (simp_all add: MSG_decode_def load_in access_out)
  with False show ?thesis by (simp add: decoder_reads_def assms)
qed

lemma decode_other_exact:
  assumes "msg ! 0 \<noteq> 19" and "4 \<le> length msg" and "of_be32 (take 4 msg) \<notin> {0, 1, 5, 13}"
    and "unat n < 2 ^ 31"
  shows "if length msg < decoder_reads c msg n \<or> carries_block msg \<and> 14 + MAX_BLOCK < unat n
    then MSG_decode m0 c msg n = Inl OutOfBounds else \<exists>r. MSG_decode m0 c msg n = Inr r"
proof (cases "10 \<le> length msg")
  case True
  have l: "load msg 0 = Inr (msg ! 0)" "load msg 4 = Inr (msg ! 4)" "load msg 5 = Inr (msg ! 5)"
    "load msg 9 = Inr (msg ! 9)" "load32 msg 0 = Inr (of_be32 (take 4 msg))"
    using True by (auto simp: load_def load32_in)
  have run: "msg ! 4 \<noteq> 7 \<Longrightarrow> \<exists>r. MSG_decode m0 c msg n = Inr r"
    "msg ! 4 = 7 \<Longrightarrow> \<exists>m2. MSG_decode m0 c msg n =
      and_then (copy_block msg (replicate MAX_BLOCK 0) 14 (sint (ucast n :: int32)))
        (\<lambda>blk. Inr (m2\<lparr>block := blk, blockLen := ucast (n - 14)\<rparr>))"
    using assms(1,3) by (auto simp: MSG_decode_def l Let_def)
  show ?thesis
  proof (cases "msg ! 4 = 7")
    case True
    from run(2) [OF this] obtain m2 where m2: "MSG_decode m0 c msg n =
      and_then (copy_block msg (replicate MAX_BLOCK 0) 14 (sint (ucast n :: int32)))
        (\<lambda>blk. Inr (m2\<lparr>block := blk, blockLen := ucast (n - 14)\<rparr>))" ..
    have cb: "carries_block msg" using assms(1,3) True by (simp add: carries_block_def)
    have "length msg < decoder_reads c msg n \<or> carries_block msg \<and> 14 + MAX_BLOCK < unat n \<longleftrightarrow>
        14 < unat n \<and> (length msg < unat n \<or> 14 + length (replicate MAX_BLOCK (0 :: byte)) < unat n)"
      using assms(1,3) True \<open>10 \<le> length msg\<close> cb by (auto simp: decoder_reads_def)
    with copy_block_exact [OF assms(4), of msg "replicate MAX_BLOCK 0"] show ?thesis
      unfolding m2 by (auto split: if_splits)
  next
    case False
    with run(1) assms(1,3) True show ?thesis by (simp add: decoder_reads_def carries_block_def)
  qed
next
  case False
  have l: "load msg 0 = Inr (msg ! 0)" "load32 msg 0 = Inr (of_be32 (take 4 msg))"
    using assms(2) by (auto simp: load_def load32_in)
  have "MSG_decode m0 c msg n = Inl OutOfBounds"
    using assms(1-3) False by (cases "length msg < 5"; cases "length msg < 6")
      (simp_all add: MSG_decode_def l load_in load_out Let_def)
  with False assms show ?thesis by (simp add: decoder_reads_def)
qed

lemma MSG_decode_exact:
  assumes "unat n < 2 ^ 31"
  shows "if length msg < decoder_reads c msg n \<or> carries_block msg \<and> 14 + MAX_BLOCK < unat n
    then MSG_decode m0 c msg n = Inl OutOfBounds else \<exists>r. MSG_decode m0 c msg n = Inr r"
proof -
  let ?len = "of_be32 (take 4 msg)"
  consider "msg ! 0 = 19" | "msg ! 0 \<noteq> 19" "length msg < 4" | "msg ! 0 \<noteq> 19" "4 \<le> length msg" "?len \<in> {0, 1, 5, 13}"
    | "msg ! 0 \<noteq> 19" "4 \<le> length msg" "?len \<notin> {0, 1, 5, 13}" by linarith
  then show ?thesis
  proof cases
    case 1
    with decode_handshake_exact [of msg c n m0] show ?thesis by (simp add: carries_block_def)
  next
    case 2
    then have "MSG_decode m0 c msg n = Inl OutOfBounds"
      by (cases "msg = []") (simp_all add: MSG_decode_def load_in access_out)
    moreover have "4 \<le> decoder_reads c msg n" using 2 by (simp add: decoder_reads_def Let_def)
    ultimately show ?thesis using 2 by simp
  next
    case 3
    then have l: "load msg 0 = Inr (msg ! 0)" "load32 msg 0 = Inr ?len"
      by (auto simp: load_def load32_in)
    have "carries_block msg = False" using 3 by (auto simp: carries_block_def)
    moreover from 3 consider "?len = 0" | "?len = 1 \<or> ?len = 5" | "?len = 13" by auto
    then have "if length msg < decoder_reads c msg n then MSG_decode m0 c msg n = Inl OutOfBounds
        else \<exists>r. MSG_decode m0 c msg n = Inr r"
    proof cases
      case 1
      with 3 l show ?thesis by (simp add: decoder_reads_def MSG_decode_def)
    next
      case 2
      then have "decoder_reads c msg n = 5" "?len \<noteq> 0" using 3 by (auto simp: decoder_reads_def)
      moreover from this 2 3(1) l have "MSG_decode m0 c msg n =
          and_then (load msg 4) (\<lambda>t. Inr (m0\<lparr>lenPayload := ?len, msgType := ucast t\<rparr>))"
        by (auto simp: MSG_decode_def Let_def)
      ultimately show ?thesis by (simp add: load_def)
    next
      case len: 3
      then have "decoder_reads c msg n = 17" using 3 by (simp add: decoder_reads_def)
      moreover from len 3(1) l have "MSG_decode m0 c msg n = and_then (load msg 4) (\<lambda>t.
          and_then (load32 msg 5) (\<lambda>ix. and_then (load32 msg 9) (\<lambda>bg. and_then (load32 msg 13) (\<lambda>rl.
            Inr (m0\<lparr>lenPayload := ?len, msgType := ucast t, index := ix, begin_off := bg, reqLen := rl\<rparr>)))))"
        by (auto simp: MSG_decode_def Let_def)
      ultimately show ?thesis
        by (cases "length msg < 5"; cases "length msg < 9"; cases "length msg < 13"; cases "length msg < 17")
          (simp_all add: load_in load32_in access_out)
    qed
    ultimately show ?thesis by simp
  next
    case 4
    with decode_other_exact [OF this assms] show ?thesis by simp
  qed
qed

lemma decode_handshake:
  assumes "length h = 20" and "length pid = 20"
  shows "MSG_decode m0 c (frame_handshake h pid @ rest) n =
     Inr (if c = 0 then m0 else m0\<lparr>hash := h, peerId := pid\<rparr>)"
proof -
  have "strcmp_eq (protocol_name @ [c]) (protocol_name @ [0]) = Inr (c = 0)"
    by (simp add: protocol_name_bytes)
  with assms show ?thesis
    by (simp add: MSG_decode_def frame_handshake_def mem_simps)
qed

definition blank_MSG :: MSG where
  "blank_MSG = \<lparr>lenPayload = 0, msgType = 0, index = 0, begin_off = 0, blockLen = 0, reqLen = 0,
     hash = replicate 20 0, peerId = replicate 20 0, block = replicate MAX_BLOCK 0\<rparr>"

subsection \<open>Properties\<close>

definition fixed_messages ::
  "int32 \<Rightarrow> int32 \<Rightarrow> int32 \<Rightarrow> ((mem \<Rightarrow> size_ptr \<Rightarrow> (mem \<times> size_ptr) res) \<times> mem \<times> (MSG \<Rightarrow> MSG)) list" where
  "fixed_messages ix bg len =
    [(MSG_keepAlive, be32 0, \<lambda>m. m\<lparr>lenPayload := 0\<rparr>),
     (MSG_choke, frame_bare 0, \<lambda>m. m\<lparr>lenPayload := 1, msgType := 0\<rparr>),
     (MSG_unchoke, frame_bare 1, \<lambda>m. m\<lparr>lenPayload := 1, msgType := 1\<rparr>),
     (MSG_interested, frame_bare 2, \<lambda>m. m\<lparr>lenPayload := 1, msgType := 2\<rparr>),
     (MSG_notInterested, frame_bare 3, \<lambda>m. m\<lparr>lenPayload := 1, msgType := 3\<rparr>),
     (\<lambda>m p. MSG_have m p ix, frame_have ix, \<lambda>m. m\<lparr>lenPayload := 5, msgType := 4\<rparr>),
     (\<lambda>m p. MSG_request m p ix bg len, frame_block 6 ix bg len,
       \<lambda>m. m\<lparr>lenPayload := 13, msgType := 6, index := ix, begin_off := bg, reqLen := len\<rparr>),
     (\<lambda>m p. MSG_cancel m p ix bg len, frame_block 8 ix bg len,
       \<lambda>m. m\<lparr>lenPayload := 13, msgType := 8, index := ix, begin_off := bg, reqLen := len\<rparr>)]"

text \<open>C25: the eight messages of fixed size. Their encoders have one contract: a buffer that is too small is
  overrun, a null size pointer faults, and otherwise the frame of the specification is written, the bytes
  behind it are left alone and its length is reported (request and cancel clear only 13 bytes, and still
  need 17). No two of the frames are the same, and the decoder reads each one back with its own type and,
  for request and cancel, with the piece index, block offset and length intact, whatever follows the message
  and whatever the uninitialised object holds; of a have message it drops the piece index.\<close>

theorem fixed_messages_exact:
  "list_all (\<lambda>(enc, frame, upd).
      enc m p = (if length m < length frame then Inl OutOfBounds else if p = None then Inl NullDeref
        else Inr (frame @ drop (length frame) m, Some (of_nat (length frame)))) \<and>
      MSG_decode m0 c (frame @ rest) n = Inr (upd m0)) (fixed_messages ix bg len) \<and>
   distinct (map (\<lambda>(enc, frame, upd). frame) (fixed_messages ix bg len))"
proof
  show "list_all (\<lambda>(enc, frame, upd).
      enc m p = (if length m < length frame then Inl OutOfBounds else if p = None then Inl NullDeref
        else Inr (frame @ drop (length frame) m, Some (of_nat (length frame)))) \<and>
      MSG_decode m0 c (frame @ rest) n = Inr (upd m0)) (fixed_messages ix bg len)"
    unfolding fixed_messages_def list.pred_inject prod.case
    by (intro conjI TrueI keepAlive.enc_exact choke.enc_exact unchoke.enc_exact interested.enc_exact
        notInterested.enc_exact have_msg.enc_exact request.enc_exact cancel.enc_exact
        decode_keepAlive decode_bare [THEN trans] decode_have decode_block [THEN trans]) simp_all
  show "distinct (map (\<lambda>(enc, frame, upd). frame) (fixed_messages ix bg len))"
    by (simp add: fixed_messages_def frame_defs be32_inj, simp add: be32_def)
qed

text \<open>A request encoder call succeeds exactly when the buffer has room for all 17 bytes of
  the message (although it clears only 13) and the size pointer is not null; then it writes
  the frame of the specification, leaves every byte behind it alone and reports 17.\<close>

lemma request_writes_frame:
  "MSG_request m p ix bg len =
     (if length m < 17 then Inl OutOfBounds
      else if p = None then Inl NullDeref
      else Inr (be32 13 @ [6] @ be32 ix @ be32 bg @ be32 len @ drop 17 m, Some 17))"
  using request.enc_short [of m ix bg len p] request.enc_null [of ix bg len m]
    request.enc_fits [of ix bg len m]
  by (cases p) (simp_all add: frame_block_def)

text \<open>C16: the handshake of a 20 byte info hash and a 20 byte peer id is the 68 byte frame of
  the specification (length byte, protocol name, eight reserved zero bytes, hash, id). Read
  back, the hash and id are recovered only if the uninitialised byte behind the copied
  protocol name happens to be non-zero; if it is zero the test against the name succeeds and
  a valid handshake leaves the object unchanged.\<close>

theorem handshake_roundtrip:
  assumes "length h = 20" and "length pid = 20" and "68 \<le> length m"
  shows "MSG_handshake m (Some s) h pid = Inr (frame_handshake h pid @ drop 68 m, Some 68) \<and>
    MSG_decode m0 c (frame_handshake h pid @ drop 68 m) n =
      Inr (if c = 0 then m0 else m0\<lparr>hash := h, peerId := pid\<rparr>)"
  using assms message_writer.enc_fits [OF handshake_writer [OF assms(1,2)], of m s]
  by (simp_all add: decode_handshake)

theorem handshake_roundtrip_witness:
  "MSG_handshake (replicate 68 0) (Some 0) (replicate 20 7) (replicate 20 9) =
     Inr (frame_handshake (replicate 20 7) (replicate 20 9), Some 68)"
  using handshake_roundtrip [of "replicate 20 7" "replicate 20 9" "replicate 68 0" 0] by simp

text \<open>C17: the exact memory safety of the decoder, on every buffer and every size below \<open>2 ^ 31\<close>. It faults,
  always by an access out of bounds, in two cases only: the buffer is shorter than what the decoder
  reads for this message, or the message is a piece of more than 14 bytes above a block, because the
  copy is bounded by the message's own size and not by the block's. In every other case it returns an
  object whose arrays have their sizes. What the decoder reads is not what the message holds: a
  complete bitfield of less than 10 bytes is read past its end.\<close>

theorem decode_faults_exactly:
  assumes "unat n < 2 ^ 31" and "MSG_wf m0"
  shows "if length msg < decoder_reads c msg n \<or> carries_block msg \<and> 14 + MAX_BLOCK < unat n
    then MSG_decode m0 c msg n = Inl OutOfBounds
    else \<exists>r. MSG_decode m0 c msg n = Inr r \<and> MSG_wf r"
  using MSG_decode_exact [OF assms(1), of msg c m0] MSG_decode_wf [OF _ assms(2), of c msg n]
  by (auto split: if_splits)

lemma blank_MSG_wf: "MSG_wf blank_MSG"
  by (simp add: MSG_wf_def blank_MSG_def)

theorem decode_faults_exactly_witness:
  "(\<exists>r. MSG_decode blank_MSG 0 (be32 99 @ replicate 16 7) 20 = Inr r \<and> MSG_wf r) \<and>
   MSG_decode blank_MSG 0 (be32 20000 @ 7 # replicate 20000 1) 20000 = Inl OutOfBounds \<and>
   MSG_decode blank_MSG 0 (be32 2 @ [5, 255]) 6 = Inl OutOfBounds"
proof (intro conjI)
  let ?fine = "be32 99 @ replicate 16 (7 :: byte)" and ?long = "be32 20000 @ 7 # replicate 20000 (1 :: byte)"
    and ?bitfield = "be32 2 @ [5, 255 :: byte]"
  have "?fine ! 0 \<noteq> 19" "?long ! 0 \<noteq> 19" "?bitfield ! 0 \<noteq> 19" by (simp_all add: be32_def)
  note first = this
  show "\<exists>r. MSG_decode blank_MSG 0 ?fine 20 = Inr r \<and> MSG_wf r"
    using first decode_faults_exactly [OF _ blank_MSG_wf, of 20 ?fine 0]
    by (simp add: MAX_BLOCK_def decoder_reads_def)
  have "carries_block ?long" using first by (simp add: carries_block_def nth_append)
  then show "MSG_decode blank_MSG 0 ?long 20000 = Inl OutOfBounds"
    using decode_faults_exactly [OF _ blank_MSG_wf, of 20000 ?long 0] by (simp add: MAX_BLOCK_def)
  have "decoder_reads 0 ?bitfield 6 = 10" using first by (simp add: decoder_reads_def nth_append)
  then show "MSG_decode blank_MSG 0 ?bitfield 6 = Inl OutOfBounds"
    using decode_faults_exactly [OF _ blank_MSG_wf, of 6 ?bitfield 0] by simp
qed

text \<open>The piece encoder writes one byte more than the size it reports and puts the message
  type one byte too far: on every block of at most 16384 bytes the frame it leaves in the
  buffer is shifted by one, its last data byte lies outside the reported size, and the
  decoder reads the message back as type 0 (choke) without its data.\<close>

lemma piece_not_readable:
  assumes "sint bl = int k" and "sint bg = int b" and "k \<le> MAX_BLOCK" and "b + k \<le> length blk"
    and "k + 14 \<le> length m"
  shows "\<exists>r. MSG_piece m (Some s) ix bg blk bl = Inr (r, Some (of_nat (k + 13))) \<and>
      take (k + 14) r = piece_image ix bg (take k (drop b blk)) \<and>
      drop (k + 14) r = drop (k + 14) m \<and>
      (\<exists>d. MSG_decode m0 c r n = Inr d \<and> msgType d = 0 \<and> block d = block m0)"
proof -
  let ?data = "take k (drop b blk)"
  have "length ?data = k" using assms(4) by simp
  moreover have "\<exists>d. MSG_decode m0 c (piece_image ix bg ?data @ drop (k + 14) m) n = Inr d \<and>
      msgType d = 0 \<and> block d = block m0 \<and> blockLen d = blockLen m0"
    using assms(3) \<open>length ?data = k\<close> by (intro decode_piece_image) simp
  ultimately show ?thesis
    using MSG_piece_writes [OF assms, of s ix] by (auto simp: piece_image_def [symmetric])
qed

text \<open>Reading a have message drops the piece index: whatever index the peer announced, the
  decoded object is the same and its index field keeps its uninitialised value.\<close>

lemma have_index_lost:
  assumes "MSG_have m p ix = Inr (r, q)"
  shows "\<exists>d. MSG_decode m0 c r n = Inr d \<and> msgType d = 4 \<and> index d = index m0 \<and>
    (\<forall>ix' r' q'. MSG_have m p ix' = Inr (r', q') \<longrightarrow> MSG_decode m0 c r' n = Inr d)"
  using have_msg.decode_written [OF assms] have_msg.decode_written by fastforce

text \<open>A piece message as the specification frames it (and as other clients send it) is
  decoded with only the most significant byte of its piece index and of its block offset, and
  its block without the first byte: reading the data starts at byte 14 of a 13 byte header.\<close>

lemma standard_piece_misread:
  assumes "length data \<le> MAX_BLOCK" and "length data \<noteq> 4" and "data \<noteq> []"
  shows "MSG_decode m0 c (frame_piece ix bg data) (of_nat (13 + length data)) =
     Inr (m0\<lparr>lenPayload := of_nat (9 + length data), msgType := 7,
       index := ucast (be32 ix ! 0 :: byte), begin_off := ucast (be32 bg ! 0 :: byte),
       block := tl data @ replicate (MAX_BLOCK - length (tl data)) 0,
       blockLen := of_nat (length data - 1)\<rparr>)"
  using assms by (rule decode_frame_piece) (rule refl)

end
