(* ===== verification/PeerConn.thy ===== *)
theory PeerConn
  imports MsgProtocol Decimal
begin

text \<open>
  The connection to one peer (\<open>peer.cpp\<close>) and the stored block (\<open>block_t.cpp\<close>). The socket calls
  are parameters: the result of \<open>socket\<close>, of \<open>connect\<close> on a socket, address and 16 bit port, of
  \<open>send\<close> on a socket and the bytes handed to it, and what \<open>recv\<close> delivers (\<open>None\<close> is an error).
\<close>

record peers =
  sock :: int
  conn_port :: int
  address :: string
  am_choking :: bool
  peer_choking :: bool
  am_interested :: bool
  peer_interested :: bool
  conn_peer_id :: string
  conn_bitfield :: int

text \<open>The constructor declares a local \<open>bitfield\<close>; the member keeps what was in memory.\<close>

definition peers_init :: "int \<Rightarrow> peers" where
  "peers_init garbage =
     \<lparr>sock = - 1, conn_port = 0, address = [], am_choking = True, peer_choking = True,
      am_interested = False, peer_interested = False, conn_peer_id = [], conn_bitfield = garbage\<rparr>"

definition peers_setup ::
  "int \<Rightarrow> (int \<Rightarrow> string \<Rightarrow> 16 word \<Rightarrow> int) \<Rightarrow> peers \<Rightarrow> string \<Rightarrow> int \<Rightarrow> string \<Rightarrow> bool \<times> peers" where
  "peers_setup socket_result connect p addr prt pid =
     (let p1 = (if sock p = - 1 then p\<lparr>sock := socket_result\<rparr> else p) in
      if sock p1 = - 1 then (False, p1)
      else let sin_port = (word_of_int (conn_port p1) :: 16 word);
               p2 = p1\<lparr>conn_port := prt, address := addr\<rparr>
           in if connect (sock p2) addr sin_port = - 1 then (False, p2)
              else (True, p2\<lparr>conn_peer_id := pid\<rparr>))"

text \<open>A failure is reported with the data as a C string, which is read up to its terminator.\<close>

definition peers_Send :: "(int \<Rightarrow> mem \<Rightarrow> int) \<Rightarrow> peers \<Rightarrow> mem \<Rightarrow> nat \<Rightarrow> bool res" where
  "peers_Send send p data n =
     (if sock p \<noteq> - 1
      then and_then (load_n data 0 n) (\<lambda>bytes.
             if send (sock p) bytes < 0 then (if 0 \<in> set data then Inr False else Inl OutOfBounds)
             else Inr True)
      else Inr False)"

text \<open>
  \<open>receive\<close> reads once into a zeroed array of \<open>size\<close> bytes, overwrites the last of them with the
  terminator and converts the array to a string; on an error it returns \<open>nullptr\<close> as a
  \<open>std::string\<close>, whose constructor throws.
\<close>

definition peers_receive :: "mem option \<Rightarrow> int \<Rightarrow> mem res" where
  "peers_receive recv n =
     (if n \<le> 0 then Inl OutOfBounds
      else case recv of
        None \<Rightarrow> Inl StdException
      | Some bytes \<Rightarrow>
          and_then (store_n (replicate (nat n) 0) 0 bytes) (\<lambda>buff.
          and_then (store buff (nat n - 1) 0) (\<lambda>buff. Inr (takeWhile (\<lambda>b. b \<noteq> 0) buff))))"

text \<open>
  The loop of \<open>read\<close>, on the sequence of results of \<open>recv\<close> for one byte each; when the sequence
  ends the call blocks (\<open>None\<close>).
\<close>

fun read_loop :: "byte \<Rightarrow> byte option list \<Rightarrow> mem \<Rightarrow> (mem \<times> byte option list) res option" where
  "read_loop b rs reply =
     (if b \<noteq> 10 \<and> b \<noteq> 0 then
        case rs of
          [] \<Rightarrow> None
        | None # rs' \<Rightarrow> Some (Inl StdException)
        | Some c # rs' \<Rightarrow> read_loop c rs' (reply @ [c])
      else Some (Inr (reply, rs)))"

declare read_loop.simps [simp del]

definition peers_read :: "byte option list \<Rightarrow> (mem \<times> byte option list) res option" where
  "peers_read rs = read_loop 0 rs []"

subsection \<open>Blocks\<close>

record block_t =
  piece_index :: int
  offset :: int
  block_data :: mem

text \<open>Blocks of a piece are ordered by their offset.\<close>

instantiation block_t_ext :: (type) preorder
begin

definition less_eq_block_t_ext :: "'a block_t_scheme \<Rightarrow> 'a block_t_scheme \<Rightarrow> bool" where
  "less_eq_block_t_ext b c \<longleftrightarrow> offset b \<le> offset c"

definition less_block_t_ext :: "'a block_t_scheme \<Rightarrow> 'a block_t_scheme \<Rightarrow> bool" where
  "less_block_t_ext b c \<longleftrightarrow> offset b < offset c"

instance
  by standard (auto simp: less_eq_block_t_ext_def less_block_t_ext_def)

end

definition block_t_init :: "int \<Rightarrow> int \<Rightarrow> mem \<Rightarrow> block_t" where
  "block_t_init ix b bl = \<lparr>piece_index = ix, offset = b, block_data = bl\<rparr>"

definition get_index :: "block_t \<Rightarrow> int" where
  "get_index b = piece_index b"

definition get_offset :: "block_t \<Rightarrow> int" where
  "get_offset b = offset b"

definition get_data :: "block_t \<Rightarrow> mem" where
  "get_data b = block_data b"

subsection \<open>Properties\<close>

text \<open>A fresh connection object connects to port 0, whatever port it is set up for: the address is
  built from the member before the member is assigned. Only a second set-up of the same object
  would use the port of the first.\<close>

lemma setup_uses_old_port:
  assumes "s \<noteq> - 1"
  shows "peers_setup s connect (peers_init g) addr prt pid =
      (if connect s addr 0 = - 1
       then (False, (peers_init g)\<lparr>sock := s, conn_port := prt, address := addr\<rparr>)
       else (True, (peers_init g)\<lparr>sock := s, conn_port := prt, address := addr, conn_peer_id := pid\<rparr>)) \<and>
    fst (peers_setup s connect (snd (peers_setup s connect (peers_init g) addr prt pid)) addr' prt' pid') =
      (connect s addr' (word_of_int prt) \<noteq> - 1)"
  using assms by (simp add: peers_setup_def peers_init_def Let_def)

text \<open>\<open>receive(n)\<close> returns at most \<open>n - 1\<close> bytes: a message that fills the array loses its last
  byte, and everything from the first zero byte on is lost; it never writes outside the array as
  long as \<open>recv\<close> keeps to the size it was given.\<close>

lemma receive_truncates:
  assumes "0 < n" and "int (length bytes) \<le> n"
  shows "peers_receive (Some bytes) n =
      Inr (takeWhile (\<lambda>b. b \<noteq> 0) (take (nat n - 1) bytes))"
proof -
  let ?z = "replicate (nat n - length bytes) (0 :: byte)"
  have len: "length bytes \<le> nat n" "0 < nat n" using assms by simp_all
  then have w: "store_n (replicate (nat n) (0 :: byte)) 0 bytes = Inr (bytes @ ?z)"
    by (simp add: store_n_def)
  have upd: "(bytes @ ?z)[nat n - 1 := 0] = take (nat n - 1) bytes @ replicate (nat n - length (take (nat n - 1) bytes)) 0"
  proof (cases "length bytes = nat n")
    case True
    then show ?thesis using len by (simp add: upd_conv_take_nth_drop)
  next
    case False
    moreover have "(replicate k (0 :: byte))[i := 0] = replicate k 0" for k i
      by (metis list_update_beyond list_update_id nth_replicate length_replicate not_less)
    moreover have "\<not> nat n - 1 < length bytes" using len False by linarith
    ultimately show ?thesis using len by (simp add: list_update_append)
  qed
  have "takeWhile (\<lambda>b. b \<noteq> 0) (xs @ replicate k (0 :: byte)) = takeWhile (\<lambda>b. b \<noteq> 0) xs" for xs k
    by (induction xs) (simp_all add: takeWhile_replicate)
  then show ?thesis
    using assms len by (simp add: peers_receive_def w store_def upd [unfolded One_nat_def])
qed

text \<open>\<open>read\<close> never reads: its buffer starts with the byte that ends the loop, so it returns the
  empty string and leaves the connection as it is, although the loop itself would collect the
  bytes up to and including the first line feed or zero.\<close>

lemma read_reads_nothing:
  assumes "\<forall>c \<in> set s. c \<noteq> 10 \<and> c \<noteq> 0" and "e = 10 \<or> e = 0" and "b \<noteq> 10" and "b \<noteq> 0"
  shows "peers_read rs = Some (Inr ([], rs)) \<and>
    read_loop b (map Some (s @ [e]) @ rs) [] = Some (Inr (s @ [e], rs))"
proof -
  have "read_loop b (map Some (s @ [e]) @ rs) reply = Some (Inr (reply @ s @ [e], rs))" for reply
    using assms
  proof (induction s arbitrary: b reply)
    case Nil
    then show ?case by (auto simp: read_loop.simps)
  next
    case (Cons c s)
    then have "read_loop c (map Some (s @ [e]) @ rs) (reply @ [c]) = Some (Inr ((reply @ [c]) @ s @ [e], rs))"
      by (intro Cons.IH) simp_all
    then show ?case using Cons.prems by (simp add: read_loop.simps [of b])
  qed
  then show ?thesis by (simp add: peers_read_def read_loop.simps)
qed

end
