(* ===== verification/PeerRequests.thy ===== *)
theory PeerRequests
  imports PeerConn
begin

text \<open>
  What the client does with the messages of a peer (the body of the loop in \<open>torrent.cpp\<close>): the
  requests it answers a \<open>have\<close> message with, the loop that sends a message, and the list of
  blocks it keeps for every piece. \<open>heap n\<close> are the bytes of a fresh allocation of \<open>n\<close> bytes. A
  computation of type \<open>'a res option\<close> that is \<open>None\<close> does not return.
\<close>

subsection \<open>Requests for a piece\<close>

text \<open>The offsets and lengths requested, in order.\<close>

fun plan_loop :: "int \<Rightarrow> int \<Rightarrow> (int \<times> int) list" where
  "plan_loop acc left =
     (if 16384 < left then (acc, 16384) # plan_loop (acc + 16384) (left - 16384)
      else [(acc, left)])"

declare plan_loop.simps [simp del]

definition request_plan :: "int32 \<Rightarrow> (int \<times> int) list" where
  "request_plan piece_length =
     (if 16384 < unat piece_length then plan_loop 0 (sint piece_length)
      else [(0, sint piece_length)])"

text \<open>
  \<open>while (numBytes < *size) numBytes += send(fd, msg, *size - numBytes, 0)\<close> on the results of the
  successive calls: each call sends from the start of the message.
\<close>

fun send_loop :: "mem \<Rightarrow> int \<Rightarrow> int \<Rightarrow> int list \<Rightarrow> mem \<Rightarrow> (mem \<times> int list) option" where
  "send_loop msg n numBytes rs out =
     (if numBytes < n then
        (case rs of
           [] \<Rightarrow> None
         | r # rs' \<Rightarrow> send_loop msg n (numBytes + r) rs' (out @ take (nat r) msg))
      else Some (out, rs))"

declare send_loop.simps [simp del]

fun send_requests ::
  "mem \<Rightarrow> size_ptr \<Rightarrow> int32 \<Rightarrow> (int \<times> int) list \<Rightarrow> int list \<Rightarrow> mem \<Rightarrow>
     (mem \<times> int list) res option" where
  "send_requests msg sz ix [] rs out = Some (Inr (out, rs))"
| "send_requests msg sz ix ((acc, left) # plan) rs out =
     (case MSG_request msg sz ix (word_of_int acc) (word_of_int left) of
        Inl f \<Rightarrow> Some (Inl f)
      | Inr (msg, sz) \<Rightarrow>
         (case sz of
            None \<Rightarrow> Some (Inl NullDeref)
          | Some n \<Rightarrow>
             (case send_loop msg (sint (ucast n :: int32)) 0 rs out of
                None \<Rightarrow> None
              | Some (out, rs) \<Rightarrow> send_requests msg sz ix plan rs out)))"

text \<open>\<open>sizeof(17)\<close> is the size of an \<open>int\<close>.\<close>

definition sizeof_int :: nat where
  "sizeof_int = 4"

definition on_have :: "(nat \<Rightarrow> mem) \<Rightarrow> int32 \<Rightarrow> int32 \<Rightarrow> int list \<Rightarrow> (mem \<times> int list) res option" where
  "on_have heap ix piece_length rs =
     send_requests (heap sizeof_int) None ix (request_plan piece_length) rs []"

subsection \<open>The blocks of a piece\<close>

text \<open>
  The scan over one piece's blocks, as a recursion over the blocks from position \<open>j\<close> on: equal
  offsets end it, the first larger offset gets the new block in front of it.
\<close>

fun insert_block :: "block_t \<Rightarrow> block_t list \<Rightarrow> block_t list \<times> bool" where
  "insert_block p [] = ([], False)"
| "insert_block p (b # bs) =
     (if offset b = offset p then (b # bs, False)
      else if offset p < offset b then (p # b # bs, True)
      else case insert_block p bs of (bs', inserted) \<Rightarrow> (b # bs', inserted))"

text \<open>
  The loop that collects the piece's data in an array of \<open>piece_length\<close> bytes. Its counter \<open>x\<close> is
  never advanced, so it copies the data of the first block again and again.
\<close>

function collect :: "nat \<Rightarrow> mem \<Rightarrow> mem \<Rightarrow> nat \<Rightarrow> mem res option" where
  "collect piece_length data arr e =
     (if data = [] then None
      else if e + length data \<le> piece_length
      then collect piece_length data (take e arr @ data @ drop (e + length data) arr) (e + length data)
      else Some (Inl OutOfBounds))"
  by pat_completeness auto

termination
  by (relation "measure (\<lambda>(n, data, arr, e). n - e)") (auto simp: neq_Nil_conv)

declare collect.simps [simp del]

text \<open>The loop over the pieces, with the flag it shares between them.\<close>

fun store_block :: "(nat \<Rightarrow> mem) \<Rightarrow> nat \<Rightarrow> block_t \<Rightarrow> bool \<Rightarrow> block_t list list \<Rightarrow> block_t list list res option" where
  "store_block heap piece_length p inserted [] = Some (Inr [])"
| "store_block heap piece_length p inserted (v # vs) =
     (case v of
        [] \<Rightarrow> Some (Inl OutOfBounds)
      | b # _ \<Rightarrow>
          if piece_index b = piece_index p then
            (let (v', ins) = (if inserted then (v, inserted) else insert_block p v)
             in case (if ins then collect piece_length (block_data (hd v')) (heap piece_length) 0
                      else Some (Inr [])) of
                  None \<Rightarrow> None
                | Some (Inl f) \<Rightarrow> Some (Inl f)
                | Some (Inr buf) \<Rightarrow>
                   (case store_block heap piece_length p ins vs of
                      None \<Rightarrow> None
                    | Some (Inl f) \<Rightarrow> Some (Inl f)
                    | Some (Inr vs') \<Rightarrow> Some (Inr (v' # vs'))))
          else
            (case store_block heap piece_length p inserted vs of
               None \<Rightarrow> None
             | Some (Inl f) \<Rightarrow> Some (Inl f)
             | Some (Inr vs') \<Rightarrow> Some (Inr (v # vs'))))"

definition on_piece :: "(nat \<Rightarrow> mem) \<Rightarrow> int32 \<Rightarrow> MSG \<Rightarrow> block_t list list \<Rightarrow> block_t list list res option" where
  "on_piece heap piece_length m vs =
     store_block heap (unat piece_length)
       (block_t_init (sint (index m)) (sint (begin_off m)) (block m)) False vs"

subsection \<open>The plan covers the piece\<close>

lemma plan_loop_closed:
  assumes "0 < left"
  shows "plan_loop acc left =
    (let m = nat ((left - 1) div 16384)
     in map (\<lambda>k. (acc + 16384 * int k, 16384)) [0..<m] @ [(acc + 16384 * int m, left - 16384 * int m)])"
  using assms
proof (induction acc left rule: plan_loop.induct)
  case (1 acc left)
  show ?case
  proof (cases "16384 < left")
    case False
    then have "(left - 1) div 16384 = 0" using 1(2) by simp
    then show ?thesis using False by (subst plan_loop.simps) simp
  next
    case True
    define m where "m = nat ((left - 16384 - 1) div 16384)"
    have "(left - 1) div 16384 = (left - 16384 - 1) div 16384 + 1" by simp
    moreover have "0 \<le> (left - 16384 - 1) div 16384"
      using True by (simp add: pos_imp_zdiv_nonneg_iff)
    ultimately have m: "nat ((left - 1) div 16384) = Suc m" by (simp add: m_def)
    have IH: "plan_loop (acc + 16384) (left - 16384) =
        map (\<lambda>k. (acc + 16384 + 16384 * int k, 16384)) [0..<m] @
        [(acc + 16384 + 16384 * int m, left - 16384 - 16384 * int m)]"
      using 1(1) [OF True] True by (simp add: Let_def m_def)
    have "map (\<lambda>k. (acc + 16384 * int k, 16384 :: int)) [0..<Suc m] =
        (acc, 16384) # map (\<lambda>k. (acc + 16384 + 16384 * int k, 16384)) [0..<m]"
      by (subst upt_conv_Cons) (simp_all add: map_Suc_upt [symmetric] del: upt_Suc)
    then show ?thesis
      using True IH by (subst plan_loop.simps) (simp add: m Let_def del: upt_Suc)
  qed
qed

lemma last_block_bounds:
  "0 < left \<Longrightarrow> 0 < left - 16384 * ((left - 1) div 16384) \<and> left - 16384 * ((left - 1) div 16384) \<le> 16384"
  for left :: int
proof -
  have "16384 * ((left - 1) div 16384) + (left - 1) mod 16384 = left - 1" by simp
  moreover have "0 \<le> (left - 1) mod 16384" "(left - 1) mod 16384 < 16384" by simp_all
  ultimately show ?thesis by linarith
qed

text \<open>C18: for a piece length below \<open>2 ^ 31\<close> the requests of a \<open>have\<close> tile the piece: they follow each
  other from offset 0 without gap or overlap, all but the last ask for 16384 bytes, the last for
  between 1 and 16384, and together they ask for exactly the piece.\<close>

theorem request_plan_tiles:
  assumes "0 < unat pl" and "unat pl < 2 ^ 31"
  shows "let m = (unat pl - 1) div 16384; last = unat pl - 16384 * m in
    request_plan pl = map (\<lambda>k. (int (16384 * k), 16384)) [0..<m] @ [(int (16384 * m), int last)] \<and>
    0 < last \<and> last \<le> 16384 \<and> sum_list (map snd (request_plan pl)) = int (unat pl)"
proof -
  define n where "n = unat pl"
  define m where "m = (n - 1) div 16384"
  have n: "0 < n" "n < 2 ^ 31" using assms by (simp_all add: n_def)
  have s: "sint pl = int n"
    using n sint32_of_nat [of n] by (simp add: n_def)
  have q: "(int n - 1) div 16384 = int m"
    using n by (simp add: m_def zdiv_int of_nat_diff)
  have bounds: "0 < int n - 16384 * int m" "int n - 16384 * int m \<le> 16384"
    using last_block_bounds [of "int n"] n(1) by (simp_all add: q)
  have plan: "request_plan pl = map (\<lambda>k. (int (16384 * k), 16384)) [0..<m] @ [(int (16384 * m), int (n - 16384 * m))]"
  proof (cases "16384 < n")
    case True
    then show ?thesis
      using plan_loop_closed [of "int n" 0] bounds n(1)
      by (simp add: request_plan_def s q Let_def flip: n_def)
  next
    case False
    then have "m = 0" using n(1) by (simp add: m_def)
    with False show ?thesis by (simp add: request_plan_def s flip: n_def)
  qed
  have "sum_list (map snd (request_plan pl)) = int n"
    using bounds by (simp add: plan comp_def sum_list_triv)
  moreover have "0 < n - 16384 * m" "n - 16384 * m \<le> 16384" using bounds by linarith+
  ultimately show ?thesis
    using plan unfolding Let_def n_def [symmetric] m_def [symmetric] by (intro conjI)
qed

theorem request_plan_tiles_witness:
  "request_plan 40000 = [(0, 16384), (16384, 16384), (32768, 7232)]"
  using request_plan_tiles [of 40000] by (simp add: Let_def upt_rec)

subsection \<open>Sending\<close>

lemma send_loop_whole:
  "0 < n \<Longrightarrow> nat n \<le> length msg \<Longrightarrow> send_loop msg n 0 (n # rs) out = Some (out @ take (nat n) msg, rs)"
  by (simp add: send_loop.simps)

text \<open>A message that the socket takes in two parts is not sent: the second call starts again at the
  beginning of the message, so the peer receives its first bytes twice and never its last ones.\<close>

lemma partial_send_repeats:
  assumes "0 < k" and "k < n" and "n \<le> length msg"
  shows "send_loop msg (int n) 0 [int k, int (n - k)] [] = Some (take k msg @ take (n - k) msg, [])"
proof -
  have "nat (int n - int k) = n - k" using assms by arith
  then show ?thesis using assms by (simp add: send_loop.simps)
qed

lemma send_loop_positive:
  assumes "\<forall>r \<in> set rs. 0 < r" and "n - numBytes \<le> int (length rs)"
  shows "\<exists>sent rest. send_loop msg n numBytes rs out = Some (sent, rest) \<and>
    (\<exists>used. rs = used @ rest \<and> int (length used) \<le> max 0 (n - numBytes) \<and>
      sent = out @ concat (map (\<lambda>r. take (nat r) msg) used))"
  using assms
proof (induction msg n numBytes rs out rule: send_loop.induct)
  case (1 msg n numBytes rs out)
  show ?case
  proof (cases "numBytes < n")
    case False
    then show ?thesis by (simp add: send_loop.simps)
  next
    case True
    with 1(3) obtain r rs' where rs: "rs = r # rs'" by (cases rs) auto
    have "\<exists>sent rest. send_loop msg n (numBytes + r) rs' (out @ take (nat r) msg) = Some (sent, rest) \<and>
        (\<exists>used. rs' = used @ rest \<and> int (length used) \<le> max 0 (n - (numBytes + r)) \<and>
          sent = (out @ take (nat r) msg) @ concat (map (\<lambda>r. take (nat r) msg) used))"
      by (rule 1(1) [OF True rs]) (use 1(2,3) rs in auto)
    then obtain sent rest used where "send_loop msg n (numBytes + r) rs' (out @ take (nat r) msg) = Some (sent, rest)"
      "rs' = used @ rest" "int (length used) \<le> max 0 (n - (numBytes + r))"
      "sent = (out @ take (nat r) msg) @ concat (map (\<lambda>r. take (nat r) msg) used)" by blast
    moreover from this have "int (length (r # used)) \<le> max 0 (n - numBytes)"
      using True 1(2) rs by (auto simp: max_def split: if_splits)
    ultimately show ?thesis using True
      by (intro exI [of _ sent] exI [of _ rest] conjI exI [of _ "r # used"])
        (simp_all add: rs send_loop.simps [of msg n numBytes])
  qed
qed

text \<open>C20: sending a message ends. While the socket takes at least one byte per call, the loop returns
  after at most as many calls as the message has bytes, and what it has put on the wire is the
  beginning of the message once per call; only when the first call takes all of it is that the message.\<close>

theorem send_loop_finishes:
  assumes "\<forall>r \<in> set rs. 0 < r" and "n \<le> length rs" and "n = length msg"
  shows "\<exists>used rest. rs = used @ rest \<and> length used \<le> n \<and>
    send_loop msg (int n) 0 rs [] = Some (concat (map (\<lambda>r. take (nat r) msg) used), rest)"
  using send_loop_positive [OF assms(1), of "int n" 0 msg "[]"] assms(2) by auto

theorem send_loop_finishes_witness:
  "\<exists>used rest. [2, 3, 1] = used @ rest \<and> length used \<le> 3 \<and>
    send_loop [7, 8, 9] 3 0 [2, 3, 1] [] = Some (concat (map (\<lambda>r. take (nat r) [7, 8, 9]) used), rest)"
  using send_loop_finishes [of "[2, 3, 1]" 3 "[7, 8, 9]"] by simp

lemma request_frame_length: "length (frame_block t ix bg len) = 17"
  by simp

lemma send_requests_run:
  assumes "17 \<le> length msg"
  shows "\<exists>msg' sz'. send_requests msg (Some s) ix plan (replicate (length plan) 17 @ rs) out =
    Some (Inr (out @ concat (map (\<lambda>(acc, left). frame_block 6 ix (word_of_int acc) (word_of_int left)) plan), rs))"
  using assms
proof (induction plan arbitrary: msg s out)
  case (Cons e plan)
  obtain acc left where e: "e = (acc, left)" by (cases e)
  let ?f = "frame_block 6 ix (word_of_int acc) (word_of_int left)"
  have w: "MSG_request msg (Some s) ix (word_of_int acc) (word_of_int left) =
      Inr (?f @ drop 17 msg, Some (of_nat 17))"
    using request.enc_fits [of ix "word_of_int acc" "word_of_int left" msg s] Cons.prems
    by (simp only: length_frames)
  have "length (?f @ drop 17 msg) = length msg" using Cons.prems by simp
  then show ?case
    using Cons.IH [of "?f @ drop 17 msg"] Cons.prems
    by (simp add: e w send_loop.simps)
qed simp

lemma on_have_short:
  assumes "\<forall>n. length (heap n) = n"
  shows "on_have heap ix pl rs = Some (Inl OutOfBounds)"
proof -
  have "request_plan pl \<noteq> []" by (simp add: request_plan_def plan_loop.simps [of 0])
  then obtain acc left plan where p: "request_plan pl = (acc, left) # plan"
    by (cases "request_plan pl") auto
  have "MSG_request (heap sizeof_int) None ix (word_of_int acc) (word_of_int left) = Inl OutOfBounds"
    using assms by (intro request_short) (simp add: sizeof_int_def)
  then show ?thesis by (simp add: on_have_def p)
qed

text \<open>The answer to a \<open>have\<close> message faults before it sends anything, since the four bytes it
  allocates cannot hold a request; with room for one request and a place for its size it would
  send exactly the requests of the plan, one after the other.\<close>

lemma on_have_faults:
  assumes "\<forall>n. length (heap n) = n"
  shows "on_have heap ix pl rs = Some (Inl OutOfBounds) \<and>
    send_requests (heap 17) (Some s) ix (request_plan pl) (replicate (length (request_plan pl)) 17 @ rs) [] =
      Some (Inr (concat (map (\<lambda>(acc, left). frame_block 6 ix (word_of_int acc) (word_of_int left))
        (request_plan pl)), rs))"
  using on_have_short [OF assms] send_requests_run [of "heap 17"] assms by simp

subsection \<open>Storing blocks\<close>

lemma insert_block_kept: "insert_block p bs = (bs', False) \<Longrightarrow> bs' = bs"
  by (induction bs arbitrary: bs') (auto split: if_splits prod.splits)

lemma insert_block_set:
  "insert_block p bs = (bs', True) \<Longrightarrow> set bs' = insert p (set bs)"
  by (induction bs arbitrary: bs') (auto split: if_splits prod.splits)

text \<open>C30: the blocks of a piece stay sorted by offset without duplicates. A block is inserted exactly
  when its offset is new and some stored offset is larger; a block behind all stored ones, which
  is the next block of a piece received in order, is dropped.\<close>

theorem insert_block_sorted:
  assumes "sorted_wrt (<) bs" and "insert_block p bs = (bs', inserted)"
  shows "sorted_wrt (<) bs' \<and>
    inserted = (offset p \<notin> offset ` set bs \<and> (\<exists>b \<in> set bs. p < b)) \<and>
    set bs' = (if inserted then insert p (set bs) else set bs)"
  using assms
proof (induction bs arbitrary: bs' inserted)
  case Nil
  then show ?case by simp
next
  case (Cons b bs)
  consider "offset b = offset p" | "offset p < offset b" | "offset b < offset p" by linarith
  then show ?case
  proof cases
    case 1
    with Cons.prems show ?thesis by (auto simp: less_block_t_ext_def)
  next
    case 2
    with Cons.prems show ?thesis by (fastforce simp: less_block_t_ext_def)
  next
    case 3
    obtain cs ins where r: "insert_block p bs = (cs, ins)" by (cases "insert_block p bs")
    with Cons 3 have "sorted_wrt (<) cs"
      "ins = (offset p \<notin> offset ` set bs \<and> (\<exists>b \<in> set bs. p < b))"
      "set cs = (if ins then insert p (set bs) else set bs)" by auto
    moreover from this(3) have "\<forall>x \<in> set cs. b < x"
      using 3 Cons.prems(1) by (auto simp: less_block_t_ext_def)
    moreover have "bs' = b # cs" "inserted = ins" using Cons.prems(2) r 3 by auto
    moreover have "\<not> p < b" "offset p \<noteq> offset b" using 3 by (simp_all add: less_block_t_ext_def)
    ultimately show ?thesis by (simp add: insert_commute)
  qed
qed

theorem insert_block_sorted_witness:
  "let b = (\<lambda>k. block_t_init 0 k []) in
    insert_block (b 5) [b 0, b 16384] = ([b 0, b 5, b 16384], True) \<and>
    insert_block (b 20000) [b 0, b 16384] = ([b 0, b 16384], False) \<and>
    sorted_wrt (<) (fst (insert_block (b 5) [b 0, b 16384]))"
  using insert_block_sorted [of "[block_t_init 0 0 [], block_t_init 0 16384 []]" "block_t_init 0 5 []"]
  by (simp add: block_t_init_def less_block_t_ext_def)

lemma collect_overruns: "collect n data arr e \<noteq> Some (Inr buf)"
  by (induction n data arr e rule: collect.induct) (subst collect.simps, simp)

lemma store_block_kept:
  "store_block heap n p False vs = Some (Inr vs') \<Longrightarrow> vs' = vs"
proof (induction vs arbitrary: vs')
  case (Cons v vs)
  from Cons.prems obtain b bs where v: "v = b # bs" by (auto split: list.splits)
  show ?case
  proof (cases "piece_index b = piece_index p")
    case True
    obtain v' ins where i: "insert_block p v = (v', ins)" by (cases "insert_block p v")
    show ?thesis
    proof (cases ins)
      case True
      with Cons.prems i v \<open>piece_index b = piece_index p\<close> show ?thesis
        by (auto simp: collect_overruns split: option.splits sum.splits simp del: insert_block.simps)
    next
      case False
      with i have "v' = v" using insert_block_kept [of p v v'] by simp
      with Cons.prems i v False True Cons.IH show ?thesis
        by (auto split: option.splits sum.splits simp del: insert_block.simps)
    qed
  next
    case False
    with Cons.prems v Cons.IH show ?thesis by (auto split: option.splits sum.splits)
  qed
qed simp

text \<open>No block is ever stored: a \<open>piece\<close> message that is handled without a fault leaves all pieces
  as they were, and at the start, when no piece has a block yet, it faults on the first one.\<close>

lemma piece_never_stored:
  assumes "on_piece heap pl m vs = Some (Inr vs')"
  shows "vs' = vs \<and> on_piece heap pl m' ([] # ws) = Some (Inl OutOfBounds)"
  using assms store_block_kept by (simp add: on_piece_def)

end
