(* ===== verification/PeerReceive.thy ===== *)
theory PeerReceive
  imports PeerRequests
begin

text \<open>
  How the main loop of \<open>torrent.cpp\<close> takes a message off a socket and what it does with it. A
  socket is the list of the pieces in which its bytes arrive: \<open>recv\<close> hands out at most as many
  bytes as it is asked for, blocks (\<open>None\<close>) when nothing is left to come, returns 0 bytes for a
  closed connection and -1 for an error. Fresh memory is \<open>heap n\<close>; a request for half the
  address space or more gives a null pointer.
\<close>

subsection \<open>The socket\<close>

datatype arrival =
    Data mem
  | RecvError

fun recv :: "int \<Rightarrow> arrival list \<Rightarrow> (int \<times> mem \<times> arrival list) option" where
  "recv n [] = None"
| "recv n (RecvError # as) = Some (- 1, [], as)"
| "recv n (Data bs # as) =
     (if int (length bs) \<le> n then Some (int (length bs), bs, as)
      else Some (n, take (nat n) bs, Data (drop (nat n) bs) # as))"

text \<open>What is still to come, as a bound for the loops that read it.\<close>

fun arrival_size :: "arrival \<Rightarrow> nat" where
  "arrival_size (Data bs) = Suc (length bs)"
| "arrival_size RecvError = 1"

lemma recv_decreases:
  "recv n as = Some (r, bs, as') \<Longrightarrow> 0 < n \<Longrightarrow>
     sum_list (map arrival_size as') < sum_list (map arrival_size as)"
  by (cases "(n, as)" rule: recv.cases) (auto split: if_splits)

lemma recv_at_most: "recv n as = Some (r, bs, as') \<Longrightarrow> 0 < n \<Longrightarrow> r \<le> n \<and> int (length bs) \<le> n"
  by (cases "(n, as)" rule: recv.cases) (auto split: if_splits)

lemma recv_data:
  "recv n as = Some (r, bs, as') \<Longrightarrow> 0 < n \<Longrightarrow> as' = tl as \<or> (\<exists>cs. cs \<noteq> [] \<and> as' = Data cs # tl as)"
  by (cases "(n, as)" rule: recv.cases) (auto split: if_splits)

subsection \<open>The loops of the main loop\<close>

text \<open>
  The four bytes of the length. The result of each call replaces \<open>numBytes\<close>, and every call
  writes to the start of the array.
\<close>

function recv_header :: "mem \<Rightarrow> int \<Rightarrow> arrival list \<Rightarrow> (mem \<times> int \<times> arrival list) res option" where
  "recv_header buf_length numBytes as =
     (if numBytes < 4 then
        (case recv (4 - numBytes) as of
           None \<Rightarrow> None
         | Some (r, bs, as') \<Rightarrow>
            (case store_n buf_length 0 bs of
               Inl f \<Rightarrow> Some (Inl f)
             | Inr buf_length' \<Rightarrow> recv_header buf_length' r as'))
      else Some (Inr (buf_length, numBytes, as)))"
  by pat_completeness auto
termination
  by (relation "measure (\<lambda>(b, n, as). sum_list (map arrival_size as))") (auto dest: recv_decreases)

declare recv_header.simps [simp del]

text \<open>The rest of the message: the results add up, but every call writes to the start again.\<close>

function recv_body :: "mem \<Rightarrow> int \<Rightarrow> int \<Rightarrow> arrival list \<Rightarrow> (mem \<times> arrival list) res option" where
  "recv_body buffer n numBytes as =
     (if numBytes < n then
        (case recv (n - numBytes) as of
           None \<Rightarrow> None
         | Some (r, bs, as') \<Rightarrow>
            (case store_n buffer 0 bs of
               Inl f \<Rightarrow> Some (Inl f)
             | Inr buffer' \<Rightarrow> recv_body buffer' n (numBytes + r) as'))
      else Some (Inr (buffer, as)))"
  by pat_completeness auto
termination
  by (relation "measure (\<lambda>(b, n, k, as). sum_list (map arrival_size as))") (auto dest: recv_decreases)

declare recv_body.simps [simp del]

text \<open>\<open>malloc\<close> of an \<open>int\<close>, which is converted to \<open>size_t\<close>.\<close>

definition malloc_int :: "(nat \<Rightarrow> mem) \<Rightarrow> int \<Rightarrow> mem option" where
  "malloc_int heap i = (if 0 \<le> i then Some (heap (nat i)) else None)"

text \<open>\<open>strcat(dst, src)\<close>: both are read up to their terminator.\<close>

definition c_strcat :: "mem \<Rightarrow> mem option \<Rightarrow> mem res" where
  "c_strcat dst src =
     (case src of
        None \<Rightarrow> Inl NullDeref
      | Some src \<Rightarrow>
          (let d = takeWhile (\<lambda>b. b \<noteq> 0) dst; s = takeWhile (\<lambda>b. b \<noteq> 0) src
           in if d = dst \<or> s = src then Inl OutOfBounds
              else store_n dst (length d) (s @ [0])))"

text \<open>
  From the readable descriptor to the bytes handed to \<open>MSG::decode\<close>: \<open>buf0\<close> is the local array
  \<open>buf_length\<close>.
\<close>

definition receive_message ::
  "(nat \<Rightarrow> mem) \<Rightarrow> mem \<Rightarrow> arrival list \<Rightarrow> (mem \<times> int64 \<times> arrival list) res option" where
  "receive_message heap buf0 as =
     (case recv_header buf0 0 as of
        None \<Rightarrow> None
      | Some (Inl f) \<Rightarrow> Some (Inl f)
      | Some (Inr (buf_length, numBytes, as)) \<Rightarrow>
         (let n = sint (of_be32 (take 4 buf_length));
              buffer = malloc_int heap n
          in case (if numBytes < n then recv_body (the buffer) n numBytes as
                   else Some (Inr (the buffer, as))) of
               None \<Rightarrow> None
             | Some (Inl f) \<Rightarrow> Some (Inl f)
             | Some (Inr (body, as)) \<Rightarrow>
                Some (and_then (checked_int (n + 4)) (\<lambda>total.
                  let msg = malloc_int heap (sint total) in
                  and_then (c_strcat buf_length (map_option (\<lambda>_. body) buffer)) (\<lambda>joined.
                  and_then (if sint total < 0 then Inl OutOfBounds
                            else load_n joined 0 (nat (sint total))) (\<lambda>bs.
                  and_then (case msg of None \<Rightarrow> Inl NullDeref | Some msg \<Rightarrow> store_n msg 0 bs) (\<lambda>msg.
                    Inr (msg, scast total, as))))))))"

subsection \<open>Answering a request\<close>

text \<open>
  \<open>pieces[retMsg.index]\<close> converts the signed index to \<open>size_t\<close>. The call hands a vector of
  blocks to a parameter of type \<open>uint8_t *\<close>, a conversion the source does not define: it is the
  parameter \<open>as_bytes\<close>.
\<close>

definition on_request ::
  "(nat \<Rightarrow> mem) \<Rightarrow> (block_t list \<Rightarrow> mem) \<Rightarrow> MSG \<Rightarrow> block_t list list \<Rightarrow> int list \<Rightarrow> (mem \<times> int list) res option" where
  "on_request heap as_bytes m vs rs =
     (case and_then (load vs (unat (scast (index m) :: int64))) (\<lambda>v.
           MSG_piece (heap sizeof_int) None (index m) (begin_off m) (as_bytes v) (blockLen m)) of
        Inl f \<Rightarrow> Some (Inl f)
      | Inr (msg, sz) \<Rightarrow>
         (case sz of
            None \<Rightarrow> Some (Inl NullDeref)
          | Some n \<Rightarrow> map_option Inr (send_loop msg (sint (ucast n :: int32)) 0 rs [])))"

subsection \<open>The whole handler\<close>

text \<open>The branches on the type of a decoded message: what is sent, and the new pieces.\<close>

definition dispatch ::
  "(nat \<Rightarrow> mem) \<Rightarrow> (block_t list \<Rightarrow> mem) \<Rightarrow> int32 \<Rightarrow> MSG \<Rightarrow> block_t list list \<Rightarrow> int list \<Rightarrow>
     (mem \<times> block_t list list) res option" where
  "dispatch heap as_bytes piece_len m vs rs =
     (if msgType m = 4 then
        map_option (map_sum id (\<lambda>(out, _). (out, vs))) (on_have heap (index m) piece_len rs)
      else if msgType m = 6 then
        map_option (map_sum id (\<lambda>(out, _). (out, vs))) (on_request heap as_bytes m vs rs)
      else if msgType m = 7 then
        map_option (map_sum id (\<lambda>vs. ([], vs))) (on_piece heap piece_len m vs)
      else Some (Inr ([], vs)))"

text \<open>A readable descriptor: receive, decode (\<open>m0\<close> and \<open>c\<close> are its uninitialised parts), dispatch.\<close>

definition on_readable ::
  "(nat \<Rightarrow> mem) \<Rightarrow> (block_t list \<Rightarrow> mem) \<Rightarrow> mem \<Rightarrow> MSG \<Rightarrow> byte \<Rightarrow> int32 \<Rightarrow> arrival list \<Rightarrow> int list \<Rightarrow>
     block_t list list \<Rightarrow> (mem \<times> block_t list list) res option" where
  "on_readable heap as_bytes buf0 m0 c piece_len as rs vs =
     (case receive_message heap buf0 as of
        None \<Rightarrow> None
      | Some (Inl f) \<Rightarrow> Some (Inl f)
      | Some (Inr (msg, n, _)) \<Rightarrow>
         (case MSG_decode m0 c msg n of
            Inl f \<Rightarrow> Some (Inl f)
          | Inr m \<Rightarrow> dispatch heap as_bytes piece_len m vs rs))"

subsection \<open>The length of a message\<close>

text \<open>All arrivals carry data, and the bytes they carry.\<close>

definition data_only :: "arrival list \<Rightarrow> bool" where
  "data_only as \<longleftrightarrow> (\<forall>a \<in> set as. \<exists>bs. bs \<noteq> [] \<and> a = Data bs)"

fun stream_bytes :: "arrival list \<Rightarrow> mem" where
  "stream_bytes [] = []"
| "stream_bytes (Data bs # as) = bs @ stream_bytes as"
| "stream_bytes (RecvError # as) = stream_bytes as"

lemma data_only_simps [simp]:
  "data_only []"
  "data_only (Data bs # as) \<longleftrightarrow> bs \<noteq> [] \<and> data_only as"
  "\<not> data_only (RecvError # as)"
  by (auto simp: data_only_def)

lemma recv_data_only:
  assumes "data_only as" and "as \<noteq> []" and "0 < n"
  shows "\<exists>bs as'. recv n as = Some (int (length bs), bs, as') \<and> bs \<noteq> [] \<and> int (length bs) \<le> n \<and>
    data_only as' \<and> stream_bytes as = bs @ stream_bytes as'"
proof -
  from assms(1,2) obtain bs as' where as: "as = Data bs # as'" "bs \<noteq> []" "data_only as'"
    by (cases as rule: stream_bytes.cases) auto
  show ?thesis
  proof (cases "int (length bs) \<le> n")
    case True
    with as show ?thesis by auto
  next
    case False
    then have "int (length (take (nat n) bs)) = n" "take (nat n) bs \<noteq> []" "drop (nat n) bs \<noteq> []"
      using assms(3) as(2) by auto
    with False as show ?thesis
      by (intro exI [of _ "take (nat n) bs"] exI [of _ "Data (drop (nat n) bs) # as'"]) simp
  qed
qed

lemma recv_header_stuck:
  assumes "data_only as" and "0 < k" and "k < 4" and "length buf = 4"
  shows "recv_header buf k as = None"
  using assms
proof (induction buf k as rule: recv_header.induct)
  case (1 buf k as)
  show ?case
  proof (cases "as = []")
    case True
    then show ?thesis using 1(4) by (simp add: recv_header.simps)
  next
    case False
    have pos: "0 < 4 - k" using 1(4) by simp
    obtain bs as' where r: "recv (4 - k) as = Some (int (length bs), bs, as')" "bs \<noteq> []"
      "int (length bs) \<le> 4 - k" "data_only as'"
      using recv_data_only [OF 1(2) False pos] by blast
    obtain buf' where b: "store_n buf 0 bs = Inr buf'" using r(3) 1(3,5) by (simp add: store_n_def)
    have "recv_header buf' (int (length bs)) as' = None"
      by (rule 1(1) [OF 1(4) r(1) refl refl b r(4)]) (use r 1(3,5) store_n_length [OF b] in simp_all)
    then show ?thesis using 1(4) r(1) b by (subst recv_header.simps) simp
  qed
qed

text \<open>C19: the length of a message is read when its four bytes are handed over by one call, and then it
  is those bytes. When the first call gets fewer, the loop, which forgets what it has counted, never ends
  as long as data keeps coming: no later call can return the four bytes it waits for.\<close>

theorem header_all_or_nothing:
  assumes "data_only (Data bs # as)" and "length buf = 4"
  shows "recv_header buf 0 (Data bs # as) =
    (if length bs < 4 then None
     else Some (Inr (take 4 bs, 4, if length bs = 4 then as else Data (drop 4 bs) # as)))"
proof (cases "length bs < 4")
  case True
  then obtain buf' where b: "store_n buf 0 bs = Inr buf'" using assms(2) by (simp add: store_n_def)
  have "recv_header buf' (int (length bs)) as = None"
    using True assms store_n_length [OF b] by (intro recv_header_stuck) simp_all
  then show ?thesis using True b by (subst recv_header.simps) simp
next
  case False
  show ?thesis
  proof (cases "length bs = 4")
    case True
    then show ?thesis using assms(2)
      by (subst recv_header.simps) (simp add: store_n_def recv_header.simps [of _ 4])
  next
    case long: False
    with False have "store_n buf 0 (take 4 bs) = Inr (take 4 bs)" using assms(2) by (simp add: store_n_def)
    with False long show ?thesis by (subst recv_header.simps) (simp add: recv_header.simps [of _ 4])
  qed
qed

theorem header_all_or_nothing_witness:
  "recv_header [9, 9, 9, 9] 0 [Data [0, 0], Data [0, 5, 4, 0]] = None \<and>
   recv_header [9, 9, 9, 9] 0 [Data [0, 0, 0, 5, 4, 0]] = Some (Inr ([0, 0, 0, 5], 4, [Data [4, 0]]))"
  using header_all_or_nothing [of "[0, 0]" "[Data [0, 5, 4, 0]]" "[9, 9, 9, 9]"]
    header_all_or_nothing [of "[0, 0, 0, 5, 4, 0]" "[]" "[9, 9, 9, 9]"] by simp

subsection \<open>The rest of a message\<close>

text \<open>C28: the second loop returns as soon as enough data has arrived, however it is cut, and its writes
  stay inside the buffer; but since it starts to count at four it takes \<open>length - 4\<close> bytes off the
  socket: the last four bytes of the message are left for the next header.\<close>

theorem body_returns_short:
  assumes "data_only as" and "n \<le> int (length buffer)" and "numBytes \<le> n" and "0 \<le> numBytes"
    and "n - numBytes \<le> int (length (stream_bytes as))"
  shows "\<exists>buffer' as'. recv_body buffer n numBytes as = Some (Inr (buffer', as')) \<and>
    length buffer' = length buffer \<and> stream_bytes as' = drop (nat (n - numBytes)) (stream_bytes as)"
  using assms
proof (induction buffer n numBytes as rule: recv_body.induct)
  case (1 buffer n k as)
  show ?case
  proof (cases "k < n")
    case False
    with 1(4) have "k = n" by simp
    then show ?thesis by (simp add: recv_body.simps)
  next
    case True
    then have ne: "as \<noteq> []" and pos: "0 < n - k" using 1(6) by auto
    obtain bs as' where r: "recv (n - k) as = Some (int (length bs), bs, as')" "bs \<noteq> []"
      "int (length bs) \<le> n - k" "data_only as'" "stream_bytes as = bs @ stream_bytes as'"
      using recv_data_only [OF 1(2) ne pos] by blast
    obtain buffer' where b: "store_n buffer 0 bs = Inr buffer'" using r(3) 1(3,5) by (simp add: store_n_def)
    have "\<exists>buffer'' as''. recv_body buffer' n (k + int (length bs)) as' = Some (Inr (buffer'', as'')) \<and>
        length buffer'' = length buffer' \<and>
        stream_bytes as'' = drop (nat (n - (k + int (length bs)))) (stream_bytes as')"
      by (rule 1(1) [OF True r(1) refl refl b r(4)]) (use r 1(3-6) store_n_length [OF b] in simp_all)
    moreover have "nat (n - k) = length bs + nat (n - (k + int (length bs)))" using r(3) by simp
    ultimately show ?thesis
      using True r(1,5) b store_n_length [OF b] by (subst recv_body.simps) simp
  qed
qed

theorem body_returns_short_witness:
  "\<exists>buffer' as'. recv_body (replicate 9 0) 9 4 [Data [1, 2], Data [3, 4, 5, 6, 7, 8, 9]] = Some (Inr (buffer', as')) \<and>
    stream_bytes as' = [6, 7, 8, 9]"
  using body_returns_short [of "[Data [1, 2], Data [3, 4, 5, 6, 7, 8, 9]]" 9 "replicate 9 0" 4] by auto

subsection \<open>No message survives its reception\<close>

lemma recv_header_length:
  "recv_header buf k as = Some (Inr (buf', k', as')) \<Longrightarrow> length buf' = length buf \<and> 4 \<le> k'"
proof (induction buf k as rule: recv_header.induct)
  case (1 buf k as)
  show ?case
  proof (cases "k < 4")
    case True
    with 1(2) obtain r bs as1 buf1 where r: "recv (4 - k) as = Some (r, bs, as1)" "store_n buf 0 bs = Inr buf1"
      and run: "recv_header buf1 r as1 = Some (Inr (buf', k', as'))"
      by (subst (asm) recv_header.simps) (auto split: option.splits sum.splits)
    from 1(1) [OF True r(1) refl refl r(2) run] store_n_length [OF r(2)] show ?thesis by simp
  next
    case False
    with 1(2) show ?thesis by (simp add: recv_header.simps)
  qed
qed

lemma c_strcat_length: "c_strcat dst src = Inr dst' \<Longrightarrow> length dst' = length dst"
  by (auto simp: c_strcat_def Let_def dest: store_n_length split: option.splits if_splits)

lemma c_strcat_empty: "c_strcat dst (Some []) = Inl OutOfBounds"
  by (simp add: c_strcat_def)

lemma sint_checked_int: "checked_int i = Inr w \<Longrightarrow> sint w = i"
  by (auto simp: checked_int_def sint32_of_int split: if_splits)

lemma receive_message_faults:
  assumes "\<forall>n. length (heap n) = n" and "length buf0 = 4"
  shows "receive_message heap buf0 as \<noteq> Some (Inr x)"
proof
  assume run: "receive_message heap buf0 as = Some (Inr x)"
  then obtain buf k as1 where h: "recv_header buf0 0 as = Some (Inr (buf, k, as1))"
    by (auto simp: receive_message_def split: option.splits sum.splits)
  let ?n = "sint (of_be32 (take 4 buf))"
  let ?buffer = "malloc_int heap ?n"
  have buf: "length buf = 4" "4 \<le> k" using recv_header_length [OF h] assms(2) by auto
  obtain body as2 total joined bs where
    body: "(if k < ?n then recv_body (the ?buffer) ?n k as1 else Some (Inr (the ?buffer, as1))) = Some (Inr (body, as2))"
    and total: "checked_int (?n + 4) = Inr total"
    and joined: "c_strcat buf (map_option (\<lambda>_. body) ?buffer) = Inr joined"
    and bs: "(if sint total < 0 then Inl OutOfBounds else load_n joined 0 (nat (sint total))) = Inr bs"
    using run by (auto simp: receive_message_def h Let_def split: option.splits sum.splits elim!: and_then_InrE)
  have t: "sint total = ?n + 4" using total by (rule sint_checked_int)
  have "length joined = 4" using c_strcat_length [OF joined] buf by simp
  with bs t have "?n \<le> 0" by (auto simp: load_n_def split: if_splits)
  moreover have "?n \<noteq> 0"
  proof
    assume n: "?n = 0"
    have "heap 0 = []" using assms(1) by (metis length_0_conv)
    with n have "?buffer = Some []" by (simp add: malloc_int_def)
    moreover from this n body buf(2) have "body = []" by simp
    ultimately show False using joined by (simp add: c_strcat_empty)
  qed
  moreover have "0 \<le> ?n"
    using joined by (auto simp: malloc_int_def c_strcat_def split: if_splits)
  ultimately show False by simp
qed

text \<open>C6: no message ever reaches its handler. Reading it from the socket either does not return or
  faults: appending the body to the four bytes of the length, and copying more than four bytes out
  of them, are both out of bounds, a message without a body is read from an empty allocation, and
  a negative length gives a null pointer.\<close>

theorem message_never_received:
  assumes "\<forall>n. length (heap n) = n" and "length buf0 = 4"
  shows "receive_message heap buf0 as \<noteq> Some (Inr x) \<and>
    on_readable heap as_bytes buf0 m0 c pl as rs vs \<noteq> Some (Inr y)"
  using receive_message_faults [OF assms] by (auto simp: on_readable_def split: option.splits sum.splits)

theorem message_never_received_witness:
  "on_readable (\<lambda>n. replicate n 0) (\<lambda>v. []) [9, 9, 9, 9] blank_MSG 0 16384 [Data [0, 0, 0, 1, 2]] [] [] \<noteq> Some (Inr ([], []))"
  using message_never_received [of "\<lambda>n. replicate n 0" "[9, 9, 9, 9]"] by simp

subsection \<open>The handlers\<close>

lemma MSG_piece_small:
  assumes "length msg \<le> 5"
  shows "\<exists>f. MSG_piece msg sz ix bg blk bl = Inl f"
proof (cases "MSG_piece msg sz ix bg blk bl")
  case (Inr x)
  then obtain total m1 m2 m3 where m1: "bzero msg (unat (scast (total :: int32) :: int64)) = Inr m1"
    and m2: "store32 m1 0 (bl + 9) = Inr m2" and m3: "store m2 5 7 = Inr m3"
    by (auto simp: MSG_piece_def elim!: and_then_InrE)
  have "length m2 = length msg"
    using store_n_length [OF m1 [unfolded bzero_def]] store_n_length [OF m2 [unfolded store32_def]] by simp
  with m3 assms show ?thesis by (simp add: store_def split: if_splits)
qed blast

lemma on_request_faults:
  assumes "\<forall>n. length (heap n) = n"
  shows "\<exists>f. on_request heap as_bytes m vs rs = Some (Inl f)"
proof -
  have small: "\<exists>f. MSG_piece (heap sizeof_int) None (index m) (begin_off m) (as_bytes v) (blockLen m) = Inl f" for v
    using assms by (intro MSG_piece_small) (simp add: sizeof_int_def)
  show ?thesis
  proof (cases "load vs (unat (scast (index m) :: int64))")
    case (Inr v)
    obtain f where "MSG_piece (heap sizeof_int) None (index m) (begin_off m) (as_bytes v) (blockLen m) = Inl f"
      using small [of v] by blast
    with Inr show ?thesis by (simp add: on_request_def)
  qed (simp add: on_request_def)
qed

lemma on_have_out: "\<forall>n. length (heap n) = n \<Longrightarrow> on_have heap ix pl rs = Some (Inl OutOfBounds)"
  by (rule on_have_short)

lemma map_sum_eq_Inr: "map_sum f g r = Inr y \<longleftrightarrow> (\<exists>x. r = Inr x \<and> y = g x)"
  by (cases r) auto

text \<open>C26: even a message that arrives is never answered. Handling one that leaves the client running
  sends nothing and leaves the stored pieces as they were; a \<open>have\<close> and a \<open>request\<close>, the two
  messages that ask for an answer, always end in a fault.\<close>

theorem dispatch_never_answers:
  assumes "\<forall>n. length (heap n) = n"
  shows "(dispatch heap as_bytes pl m vs rs = Some (Inr (out, vs')) \<longrightarrow> out = [] \<and> vs' = vs) \<and>
    (msgType m \<in> {4, 6} \<longrightarrow> (\<exists>f. dispatch heap as_bytes pl m vs rs = Some (Inl f)))"
proof -
  obtain f where f: "on_request heap as_bytes m vs rs = Some (Inl f)"
    using on_request_faults [OF assms] by blast
  have "vs' = vs" if "on_piece heap pl m vs = Some (Inr vs')"
    using that store_block_kept by (simp add: on_piece_def)
  then show ?thesis
    using on_have_out [OF assms, of "index m" pl rs] f
    by (auto simp: dispatch_def map_sum_eq_Inr)
qed

theorem dispatch_never_answers_witness:
  "\<exists>f. dispatch (\<lambda>n. replicate n 0) (\<lambda>v. []) 16384 (blank_MSG\<lparr>msgType := 6\<rparr>) [] [] = Some (Inl f)"
  using dispatch_never_answers [of "\<lambda>n. replicate n 0" "\<lambda>v. []" 16384 "blank_MSG\<lparr>msgType := 6\<rparr>" "[]" "[]"] by simp

end
