(* ===== verification/TorrentMain.thy ===== *)
theory TorrentMain
  imports PeerReceive MetafileReader CppStream Simulation
begin

text \<open>
  The client itself (\<open>torrent.cpp\<close>): the peer id, the start-up sequence of the constructor
  (metafile, announce, one handshake per peer), the main loop with its table of descriptors as a
  step relation, and \<open>main\<close>. The environment record collects the parameters of all parts.
\<close>

subsection \<open>Peer id\<close>

text \<open>\<open>rand i\<close> is the \<open>i\<close>-th result of the C generator, which is never negative.\<close>

definition make_peer_id :: "(nat \<Rightarrow> nat) \<Rightarrow> string" where
  "make_peer_id rand = concat (map (\<lambda>i. nat_dec (rand i mod 10)) [0..<20])"

subsection \<open>Start-up\<close>

record torrent_env =
  env_sha1 :: "string \<Rightarrow> mem"
  env_new_char :: "nat \<Rightarrow> string"
  env_malloc :: "nat \<Rightarrow> mem"
  env_uninit :: metafile
  env_bitfield :: int
  env_rand :: "nat \<Rightarrow> nat"
  env_curl :: bool
  env_esc :: "string \<Rightarrow> string option"
  env_http :: "string \<Rightarrow> string list"
  env_socket :: "nat \<Rightarrow> int"
  env_connect :: "int \<Rightarrow> string \<Rightarrow> 16 word \<Rightarrow> int"
  env_send :: "int \<Rightarrow> mem \<Rightarrow> int"
  env_pfds :: "int list"
  env_as_bytes :: "block_t list \<Rightarrow> mem"

text \<open>\<open>sizeof(p.peer_id.length())\<close> is the size of a \<open>size_t\<close>.\<close>

definition sizeof_size_t :: nat where
  "sizeof_size_t = 8"

text \<open>
  The handshake with one peer, in the blocks \<open>msg\<close> and \<open>peerid\<close> and with the pointer \<open>size\<close>: the peer's
  id is copied, the message is written, and as many bytes as \<open>size\<close> then points to are sent.
\<close>

definition send_handshake ::
  "(int \<Rightarrow> mem \<Rightarrow> int) \<Rightarrow> metafile \<Rightarrow> peers \<Rightarrow> mem \<Rightarrow> mem \<Rightarrow> size_ptr \<Rightarrow> bool res" where
  "send_handshake send meta p msg peerid sz =
     and_then (store_n peerid 0 (map of_char (conn_peer_id p))) (\<lambda>peerid.
     and_then (MSG_handshake msg sz (info_hash meta) peerid) (\<lambda>(msg, sz).
     and_then (case sz of None \<Rightarrow> Inl NullDeref | Some n \<Rightarrow> Inr n) (\<lambda>n.
       peers_Send send p msg (unat n))))"

definition connect_peer :: "torrent_env \<Rightarrow> nat \<Rightarrow> metafile \<Rightarrow> peer \<Rightarrow> peers res" where
  "connect_peer E i meta q =
     (let p = snd (peers_setup (env_socket E i) (env_connect E) (peers_init (env_bitfield E))
                (peer_ip q) (peer_port q) (peer_peer_id q))
      in and_then (send_handshake (env_send E) meta p (env_malloc E sizeof_int) (env_malloc E sizeof_size_t) None)
           (\<lambda>sent. Inr p))"

fun connect_peers :: "torrent_env \<Rightarrow> nat \<Rightarrow> metafile \<Rightarrow> peer list \<Rightarrow> peers list res" where
  "connect_peers E i meta [] = Inr []"
| "connect_peers E i meta (q # qs) =
     and_then (connect_peer E i meta q) (\<lambda>p.
     and_then (connect_peers E (Suc i) meta qs) (\<lambda>ps. Inr (p # ps)))"

subsection \<open>The main loop\<close>

record poll_state =
  fd_count :: nat
  fd_size :: nat
  pfds :: "int list"

text \<open>The table as allocated: entry 0 is the listening socket, \<open>junk\<close> what the other four hold.\<close>

definition poll_init :: "int \<Rightarrow> int list \<Rightarrow> poll_state" where
  "poll_init listener junk = \<lparr>fd_count = 0, fd_size = 5, pfds = listener # junk\<rparr>"

text \<open>Accepting a client: a full table doubles (\<open>junk\<close> is what the new half holds).\<close>

definition accept_client :: "int \<Rightarrow> int list \<Rightarrow> poll_state \<Rightarrow> poll_state res" where
  "accept_client clntSock junk s =
     (let s = (if fd_count s = fd_size s
               then s\<lparr>fd_size := 2 * fd_size s, pfds := pfds s @ junk\<rparr> else s)
      in and_then (store (pfds s) (fd_count s) clntSock) (\<lambda>t.
         Inr (s\<lparr>pfds := t, fd_count := fd_count s + 1\<rparr>)))"

text \<open>
  The outcome of one ready descriptor: the loop goes on with a new table and new pieces, or the
  run ends in a fault, or it never comes back from the descriptor.
\<close>

datatype outcome =
    Running poll_state "block_t list list"
  | Faulted fault
  | Stuck

text \<open>What one ready descriptor brings: a new client, or bytes from the client on a descriptor.\<close>

datatype event =
    Accepts int
  | Receives int "arrival list"

text \<open>
  Only the first \<open>fd_count\<close> entries are polled and looked at. The listening socket gives a new
  client, any other descriptor a message; \<open>buf0\<close>, \<open>m0\<close> and \<open>c\<close> are the uninitialised locals of
  its handling and \<open>rs\<close> the results of sending.
\<close>

inductive client_step ::
  "torrent_env \<Rightarrow> metafile \<Rightarrow> int \<Rightarrow> event \<Rightarrow> poll_state \<Rightarrow> block_t list list \<Rightarrow> outcome \<Rightarrow> bool"
  for E :: torrent_env and meta :: metafile and listener :: int where
  accept: "\<lbrakk>i < fd_count s; load (pfds s) i = Inr listener; length junk = fd_size s;
      accept_client clntSock junk s = Inr s'\<rbrakk> \<Longrightarrow>
      client_step E meta listener (Accepts clntSock) s vs (Running s' vs)"
| message: "\<lbrakk>i < fd_count s; load (pfds s) i = Inr fd; fd \<noteq> listener; length buf0 = 4;
      on_readable (env_malloc E) (env_as_bytes E) buf0 m0 c (piece_length meta) as rs vs = Some (Inr (out, vs'))\<rbrakk> \<Longrightarrow>
      client_step E meta listener (Receives fd as) s vs (Running s vs')"
| message_fault: "\<lbrakk>i < fd_count s; load (pfds s) i = Inr fd; fd \<noteq> listener; length buf0 = 4;
      on_readable (env_malloc E) (env_as_bytes E) buf0 m0 c (piece_length meta) as rs vs = Some (Inl f)\<rbrakk> \<Longrightarrow>
      client_step E meta listener (Receives fd as) s vs (Faulted f)"
| message_stuck: "\<lbrakk>i < fd_count s; load (pfds s) i = Inr fd; fd \<noteq> listener; length buf0 = 4;
      on_readable (env_malloc E) (env_as_bytes E) buf0 m0 c (piece_length meta) as rs vs = None\<rbrakk> \<Longrightarrow>
      client_step E meta listener (Receives fd as) s vs Stuck"

inductive_simps client_step_simps: "client_step E meta listener ev s vs r"
inductive_cases client_step_AcceptsE: "client_step E meta listener (Accepts clnt) s vs r"
inductive_cases client_step_ReceivesE: "client_step E meta listener (Receives fd as) s vs r"

text \<open>The steps after which the loop goes on, on the table together with the pieces.\<close>

definition client_next ::
  "torrent_env \<Rightarrow> metafile \<Rightarrow> int \<Rightarrow> event \<Rightarrow> poll_state \<times> block_t list list \<Rightarrow> poll_state \<times> block_t list list \<Rightarrow> bool" where
  "client_next E meta listener ev x y \<longleftrightarrow>
     client_step E meta listener ev (fst x) (snd x) (Running (fst y) (snd y))"

subsection \<open>The constructor and \<open>main\<close>\<close>

record client =
  cl_meta :: metafile
  cl_tracker :: tracker
  cl_sock_peer :: "peers list"
  cl_poll :: poll_state
  cl_pieces :: "block_t list list"

definition torrent_start :: "torrent_env \<Rightarrow> string option \<Rightarrow> int \<Rightarrow> int \<Rightarrow> client res" where
  "torrent_start E content port listener =
     and_then (create_metafile (env_sha1 E) (env_new_char E) (env_uninit E) content) (\<lambda>meta.
     let connector = TrackerConnector (env_curl E) (announce meta);
         peer_id = make_peer_id (env_rand E)
     in and_then (tracker_request (env_esc E) (env_http E) connector
            (Some (map (\<lambda>b. char_of (unat b)) (info_hash meta))) (Some (peer_id @ [CHR 0x00])) port) (\<lambda>(r, connector).
        and_then (connect_peers E 0 meta (get_peers connector)) (\<lambda>sock_peer.
          Inr \<lparr>cl_meta = meta, cl_tracker = connector, cl_sock_peer = sock_peer,
            cl_poll = poll_init listener (env_pfds E), cl_pieces = replicate (length (pieces meta)) []\<rparr>)))"

text \<open>
  \<open>argv2 >> port\<close>: the value is 0 when no number can be read and the nearest \<open>int\<close> when it does
  not fit.
\<close>

definition extract_int :: "string \<Rightarrow> int" where
  "extract_int str =
     (case scan_int str of (neg, ds, rest) \<Rightarrow>
        if ds = [] then 0
        else max (- (2 ^ 31)) (min (2 ^ 31 - 1) (if neg then - int (dec_value ds) else int (dec_value ds))))"

text \<open>
  \<open>main\<close> either returns with a status or enters the loop; the string is what it has printed itself.
  \<open>fs\<close> are the contents of the files that can be opened.
\<close>

datatype main_outcome =
    Exits int string
  | Polls string client

definition torrent_main :: "torrent_env \<Rightarrow> (string \<Rightarrow> string option) \<Rightarrow> int \<Rightarrow> string list \<Rightarrow> main_outcome res" where
  "torrent_main E fs listener argv =
     (if length argv \<noteq> 3 then Inr (Exits (- 1) ''need <path> <port>\<newline>'')
      else and_then (torrent_start E (fs (argv ! 1)) (extract_int (argv ! 2)) listener) (\<lambda>cl.
        Inr (Polls (argv ! 1 @ ''\<newline>'') cl)))"

subsection \<open>Properties\<close>

lemma nat_dec_digit: "d < 10 \<Longrightarrow> nat_dec d = [digit_char d]"
  by (subst nat_dec.simps) simp

lemma make_peer_id_eq: "make_peer_id rand = map (\<lambda>i. digit_char (rand i mod 10)) [0..<20]"
proof -
  have "concat (map (\<lambda>i. nat_dec (rand i mod 10)) is) = map (\<lambda>i. digit_char (rand i mod 10)) is" for "is"
    by (induction "is") (simp_all add: nat_dec_digit)
  then show ?thesis by (simp add: make_peer_id_def)
qed

lemma peer_id_is_digits: "c \<in> set (make_peer_id rand) \<Longrightarrow> is_digit c"
  by (auto simp: make_peer_id_eq simp del: upt_Suc)

text \<open>The peer id always has the 20 bytes the protocol asks for, all of them decimal digits.\<close>

lemma make_peer_id_digits:
  "length (make_peer_id rand) = 20 \<and> list_all is_digit (make_peer_id rand)"
  by (simp add: make_peer_id_eq list_all_iff del: upt_Suc)

definition poll_inv :: "poll_state \<Rightarrow> bool" where
  "poll_inv s \<longleftrightarrow> fd_count s \<le> fd_size s \<and> length (pfds s) = fd_size s \<and> 0 < fd_size s"

text \<open>The environment's allocations have the sizes that were asked for.\<close>

definition env_ok :: "torrent_env \<Rightarrow> bool" where
  "env_ok E \<longleftrightarrow> (\<forall>n. length (env_malloc E n) = n) \<and> length (env_pfds E) = 4"

text \<open>A concrete environment.\<close>

definition blank_metafile :: metafile where
  "blank_metafile = metafile_init 0 0 0 0 []"

definition sample_env :: torrent_env where
  "sample_env = \<lparr>env_sha1 = \<lambda>s. replicate 20 0, env_new_char = \<lambda>n. replicate n CHR ''?'',
     env_malloc = \<lambda>n. replicate n 0, env_uninit = blank_metafile, env_bitfield = 0,
     env_rand = \<lambda>i. i, env_curl = True, env_esc = plain_esc,
     env_http = \<lambda>u. [syn_text (sample_response [])], env_socket = \<lambda>i. 4,
     env_connect = \<lambda>s a p. 0, env_send = \<lambda>s bs. int (length bs),
     env_pfds = [0, 0, 0, 0], env_as_bytes = \<lambda>v. []\<rparr>"

lemma sample_env_ok: "env_ok sample_env"
  by (simp add: env_ok_def sample_env_def)

lemma poll_init_inv: "length junk = 4 \<Longrightarrow> poll_inv (poll_init listener junk)"
  by (simp add: poll_inv_def poll_init_def)

text \<open>The descriptors that are polled.\<close>

definition polled :: "poll_state \<Rightarrow> int list" where
  "polled s = take (fd_count s) (pfds s)"

lemma polled_mem:
  assumes "poll_inv s"
  shows "fd \<in> set (polled s) \<longleftrightarrow> (\<exists>i < fd_count s. load (pfds s) i = Inr fd)"
proof -
  have len: "fd_count s \<le> length (pfds s)" using assms by (simp add: poll_inv_def)
  then have "load (pfds s) i = Inr fd \<longleftrightarrow> pfds s ! i = fd" if "i < fd_count s" for i
    using that by (simp add: load_def)
  then show ?thesis using len by (auto simp: polled_def in_set_conv_nth)
qed

lemma accept_client_run:
  assumes "poll_inv s" and "length junk = fd_size s"
  shows "\<exists>s'. accept_client clnt junk s = Inr s' \<and> poll_inv s' \<and> fd_count s' = fd_count s + 1 \<and>
    polled s' = polled s @ [clnt]"
proof (cases "fd_count s = fd_size s")
  case True
  let ?t = "(pfds s @ junk)[fd_count s := clnt]"
  have len: "fd_count s < length (pfds s @ junk)" "length (pfds s) = fd_count s"
    using assms True by (simp_all add: poll_inv_def)
  have "accept_client clnt junk s = Inr (s\<lparr>fd_size := 2 * fd_size s, pfds := ?t, fd_count := fd_count s + 1\<rparr>)"
    using len True by (simp add: accept_client_def store_def Let_def)
  moreover have "take (Suc (fd_count s)) ?t = take (fd_count s) (pfds s) @ [clnt]"
    using len by (simp add: take_update_snoc)
  ultimately show ?thesis using assms by (simp add: poll_inv_def polled_def)
next
  case False
  let ?t = "(pfds s)[fd_count s := clnt]"
  have len: "fd_count s < length (pfds s)"
    using assms False by (simp add: poll_inv_def)
  have "accept_client clnt junk s = Inr (s\<lparr>pfds := ?t, fd_count := fd_count s + 1\<rparr>)"
    using len False by (simp add: accept_client_def store_def Let_def)
  moreover have "take (Suc (fd_count s)) ?t = take (fd_count s) (pfds s) @ [clnt]"
    using len by (simp add: take_update_snoc)
  ultimately show ?thesis using assms len by (simp add: poll_inv_def polled_def)
qed

lemma no_message: "env_ok E \<Longrightarrow> length buf0 = 4 \<Longrightarrow>
    on_readable (env_malloc E) as_bytes buf0 m0 c pl as rs vs \<noteq> Some (Inr y)"
  using receive_message_faults [of "env_malloc E" buf0 as]
  by (auto simp: env_ok_def on_readable_def split: option.splits sum.splits)

lemma client_step_running:
  assumes "client_step E meta listener ev s vs (Running s' vs')" and "env_ok E" and "poll_inv s"
  shows "vs' = vs \<and> poll_inv s' \<and> fd_count s' = fd_count s + 1 \<and> listener \<in> set (polled s) \<and>
    (\<exists>clnt. ev = Accepts clnt \<and> polled s' = polled s @ [clnt])"
  using assms(1)
proof (cases rule: client_step.cases)
  case (accept i junk clntSock)
  with accept_client_run [OF assms(3), of junk clntSock] polled_mem [OF assms(3)] show ?thesis by auto
next
  case (message i fd buf0 m0 c as rs out)
  with no_message [OF assms(2)] show ?thesis by blast
qed

lemma client_step_accepts:
  assumes "poll_inv s" and "listener \<in> set (polled s)"
  shows "\<exists>s'. client_step E meta listener (Accepts clnt) s vs (Running s' vs) \<and> polled s' = polled s @ [clnt] \<and>
    poll_inv s' \<and> fd_count s' = fd_count s + 1"
proof -
  obtain i where i: "i < fd_count s" "load (pfds s) i = Inr listener"
    using assms polled_mem by blast
  have "length (replicate (fd_size s) (0 :: int)) = fd_size s" by simp
  from accept_client_run [OF assms(1) this, of clnt] client_step.accept [OF i this] show ?thesis by blast
qed

text \<open>
  The contract of the loop: a list of descriptors that grows by the clients the listening socket
  gives, beside pieces that do not change.
\<close>

definition accept_spec :: "int \<Rightarrow> event \<Rightarrow> int list \<times> block_t list list \<Rightarrow> int list \<times> block_t list list \<Rightarrow> bool" where
  "accept_spec listener ev x y \<longleftrightarrow>
     listener \<in> set (fst x) \<and> (\<exists>clnt. ev = Accepts clnt \<and> y = (fst x @ [clnt], snd x))"

definition client_abs :: "poll_state \<times> block_t list list \<Rightarrow> int list \<times> block_t list list" where
  "client_abs x = (polled (fst x), snd x)"

interpretation loop: bisimulation
  "client_next E meta listener" "accept_spec listener" client_abs "\<lambda>x. env_ok E \<and> poll_inv (fst x)"
  for E meta listener
proof
  fix x y :: "poll_state \<times> block_t list list" and ev
  assume inv: "env_ok E \<and> poll_inv (fst x)" and step: "client_next E meta listener ev x y"
  from client_step_running [OF step [unfolded client_next_def]] inv
  show "env_ok E \<and> poll_inv (fst y)" "accept_spec listener ev (client_abs x) (client_abs y)"
    by (auto simp: accept_spec_def client_abs_def)
next
  fix x :: "poll_state \<times> block_t list list" and ev b
  assume inv: "env_ok E \<and> poll_inv (fst x)" and step: "accept_spec listener ev (client_abs x) b"
  then obtain clnt where clnt: "listener \<in> set (polled (fst x))" "ev = Accepts clnt" "b = (polled (fst x) @ [clnt], snd x)"
    by (auto simp: accept_spec_def client_abs_def)
  from client_step_accepts [of "fst x" listener E meta clnt "snd x"] inv clnt(1) obtain s' where
    "client_step E meta listener ev (fst x) (snd x) (Running s' (snd x))" "polled s' = polled (fst x) @ [clnt]"
    unfolding clnt(2) by blast
  with clnt show "\<exists>y. client_next E meta listener ev x y \<and> client_abs y = b"
    by (intro exI [of _ "(s', snd x)"]) (simp add: client_next_def client_abs_def)
qed

text \<open>What the contract allows, in closed form.\<close>

lemma accept_spec_trace:
  "trace (accept_spec listener) evs (fds, vs) b \<longleftrightarrow>
     (\<exists>clnts. evs = map Accepts clnts \<and> b = (fds @ clnts, vs) \<and> (clnts \<noteq> [] \<longrightarrow> listener \<in> set fds))"
proof (induction evs arbitrary: fds)
  case (Cons ev evs)
  show ?case
  proof
    assume "trace (accept_spec listener) (ev # evs) (fds, vs) b"
    then obtain clnt where 1: "listener \<in> set fds" "ev = Accepts clnt"
      and "trace (accept_spec listener) evs (fds @ [clnt], vs) b" by (auto simp: accept_spec_def)
    with Cons.IH obtain clnts where "evs = map Accepts clnts" "b = ((fds @ [clnt]) @ clnts, vs)" by blast
    with 1 show "\<exists>clnts. ev # evs = map Accepts clnts \<and> b = (fds @ clnts, vs) \<and> (clnts \<noteq> [] \<longrightarrow> listener \<in> set fds)"
      by (intro exI [of _ "clnt # clnts"]) simp
  next
    assume "\<exists>clnts. ev # evs = map Accepts clnts \<and> b = (fds @ clnts, vs) \<and> (clnts \<noteq> [] \<longrightarrow> listener \<in> set fds)"
    then obtain clnt clnts where "ev = Accepts clnt" "evs = map Accepts clnts" "b = (fds @ clnt # clnts, vs)"
      "listener \<in> set fds" by (auto simp: Cons_eq_map_conv)
    moreover from this have "accept_spec listener ev (fds, vs) (fds @ [clnt], vs)" by (simp add: accept_spec_def)
    moreover have "trace (accept_spec listener) (map Accepts clnts) (fds @ [clnt], vs) (fds @ clnt # clnts, vs)"
      using Cons.IH [of "fds @ [clnt]"] calculation by auto
    ultimately show "trace (accept_spec listener) (ev # evs) (fds, vs) b" by auto
  qed
qed auto

text \<open>The traces of the loop: it accepts clients, as long as it polls the listening socket.\<close>

lemma client_traces:
  assumes "env_ok E" and "poll_inv s"
  shows "(\<exists>s'. trace (client_next E meta listener) evs (s, vs) (s', vs') \<and> polled s' = fds) \<longleftrightarrow>
    (\<exists>clnts. evs = map Accepts clnts \<and> fds = polled s @ clnts \<and> vs' = vs \<and>
      (clnts \<noteq> [] \<longrightarrow> listener \<in> set (polled s)))"
  using loop.trace_iff [of E "(s, vs)" meta listener evs "(fds, vs')"] assms
  by (simp add: client_abs_def accept_spec_trace)

text \<open>C29: the descriptor table stays consistent whatever happens: it never holds more descriptors than
  its size, every write falls inside the allocation, and a descriptor once accepted keeps its
  place while the table grows.\<close>

theorem poll_table_invariant:
  assumes "poll_inv s" and "env_ok E" and "trace (client_next E meta listener) evs (s, vs) (s', vs')"
  shows "poll_inv s' \<and> (\<exists>new. polled s' = polled s @ new) \<and>
    (\<forall>clnt junk. length junk = fd_size s' \<longrightarrow> (\<exists>s''. accept_client clnt junk s' = Inr s''))"
proof -
  have inv: "poll_inv s'" using loop.inv_trace [of E "(s, vs)"] assms by fastforce
  moreover have "\<exists>new. polled s' = polled s @ new" using client_traces [OF assms(2,1)] assms(3) by blast
  ultimately show ?thesis using accept_client_run by blast
qed

definition one_listener :: poll_state where
  "one_listener = \<lparr>fd_count = 1, fd_size = 1, pfds = [3]\<rparr>"

lemma one_listener_polled: "poll_inv one_listener" "polled one_listener = [3]"
  by (simp_all add: poll_inv_def polled_def one_listener_def)

theorem poll_table_invariant_witness:
  "\<exists>s. trace (client_next sample_env blank_metafile 3) [Accepts 7] (one_listener, []) (s, []) \<and> poll_inv s"
proof -
  obtain s where s: "trace (client_next sample_env blank_metafile 3) [Accepts 7] (one_listener, []) (s, [])"
    using client_traces [OF sample_env_ok one_listener_polled(1), of blank_metafile 3 "[Accepts 7]" "[]" "[]" "[3, 7]"]
    by (auto simp: one_listener_polled intro: exI [of _ "[7]"])
  from poll_table_invariant [OF one_listener_polled(1) sample_env_ok s] s show ?thesis by blast
qed

text \<open>C5: the main loop, table, messages and all, implements a list of clients: seen through the
  descriptors it polls, its traces are exactly those in which the listening socket appends clients
  one by one beside pieces that stay what they were. Growing the table adds nothing, and no trace
  goes on after a message.\<close>

theorem client_refines_accepts:
  assumes "env_ok E" and "poll_inv s"
  shows "(\<exists>s'. trace (client_next E meta listener) evs (s, vs) (s', vs') \<and> polled s' = fds) \<longleftrightarrow>
      trace (accept_spec listener) evs (polled s, vs) (fds, vs') \<and>
    (trace (client_next E meta listener) evs (s, vs) y \<longrightarrow> Receives fd as \<notin> set evs)"
proof -
  have "Receives fd as \<notin> set evs" if "trace (client_next E meta listener) evs (s, vs) y"
    using client_traces [OF assms, of meta listener evs vs "snd y" "polled (fst y)"] that by (cases y) auto
  then show ?thesis
    using loop.trace_iff [of E "(s, vs)" meta listener evs "(fds, vs')"] assms by (simp add: client_abs_def)
qed

theorem client_refines_accepts_witness:
  "\<exists>s. trace (client_next sample_env blank_metafile 3) [Accepts 7, Accepts 8] (one_listener, []) (s, []) \<and>
    polled s = [3, 7, 8]"
  using client_refines_accepts [OF sample_env_ok one_listener_polled(1), of blank_metafile 3
      "[Accepts 7, Accepts 8]" "[]" "[]" "[3, 7, 8]"]
  by (auto simp: one_listener_polled accept_spec_def)

lemma poll_init_trace:
  "trace (client_next E meta listener) evs (poll_init l junk, vs) y \<longleftrightarrow> evs = [] \<and> y = (poll_init l junk, vs)"
  by (rule trace_stuck) (simp add: client_next_def client_step_simps poll_init_def)

text \<open>The main loop never serves anyone: the count of polled descriptors starts at zero and only an
  accepted client would raise it, so the loop stays in its first state for ever. Had the count
  started at one, any number of clients could be accepted.\<close>

lemma poll_loop_idle:
  assumes "length junk = 4" and "env_ok E"
  shows "trace (client_next E meta listener) evs (poll_init listener junk, vs) y \<longleftrightarrow>
      evs = [] \<and> y = (poll_init listener junk, vs)"
    and "\<exists>s'. trace (client_next E meta listener) (map Accepts clnts)
      ((poll_init listener junk)\<lparr>fd_count := 1\<rparr>, vs) (s', vs) \<and> polled s' = listener # clnts"
proof -
  show "trace (client_next E meta listener) evs (poll_init listener junk, vs) y \<longleftrightarrow>
      evs = [] \<and> y = (poll_init listener junk, vs)"
    by (rule poll_init_trace)
  have "poll_inv ((poll_init listener junk)\<lparr>fd_count := 1\<rparr>)" "polled ((poll_init listener junk)\<lparr>fd_count := 1\<rparr>) = [listener]"
    using assms by (simp_all add: poll_inv_def poll_init_def polled_def)
  with client_traces [OF assms(2), of "(poll_init listener junk)\<lparr>fd_count := 1\<rparr>" meta listener "map Accepts clnts" vs vs "listener # clnts"]
  show "\<exists>s'. trace (client_next E meta listener) (map Accepts clnts)
      ((poll_init listener junk)\<lparr>fd_count := 1\<rparr>, vs) (s', vs) \<and> polled s' = listener # clnts" by auto
qed

subsection \<open>Start-up and arguments\<close>

text \<open>What the handshake needs of its two blocks and its pointer.\<close>

lemma send_handshake_fits:
  assumes "length (info_hash meta) = 20"
  shows "(\<exists>sent. send_handshake send meta p msg peerid sz = Inr sent) \<longleftrightarrow>
    68 \<le> length msg \<and> 20 \<le> length peerid \<and> length (conn_peer_id p) \<le> length peerid \<and> sz \<noteq> None"
proof (cases "length (conn_peer_id p) \<le> length peerid")
  case False
  then show ?thesis by (simp add: send_handshake_def store_n_def)
next
  case True
  define pid where "pid = map of_char (conn_peer_id p) @ drop (length (conn_peer_id p)) peerid"
  have len: "length pid = length peerid" using True by (simp add: pid_def)
  have run: "send_handshake send meta p msg peerid sz =
      and_then (MSG_handshake msg sz (info_hash meta) pid) (\<lambda>(msg, sz).
      and_then (case sz of None \<Rightarrow> Inl NullDeref | Some n \<Rightarrow> Inr n) (\<lambda>n. peers_Send send p msg (unat n)))"
    using True by (simp add: send_handshake_def store_n_def pid_def)
  show ?thesis
  proof (cases "68 \<le> length msg \<and> 20 \<le> length peerid")
    case False
    then have "MSG_handshake msg sz (info_hash meta) pid = Inl OutOfBounds"
      using len assms by (cases "68 \<le> length msg")
        (simp_all add: MSG_handshake_def bzero_def store_n_def store_def load_n_def nth_append)
    with False show ?thesis unfolding run by auto
  next
    case fits: True
    have pid20: "MSG_handshake msg sz (info_hash meta) pid = MSG_handshake msg sz (info_hash meta) (take 20 pid)"
      using fits len by (simp add: MSG_handshake_def load_n_def)
    let ?f = "frame_handshake (info_hash meta) (take 20 pid)"
    have writer: "message_writer (\<lambda>m p. MSG_handshake m p (info_hash meta) (take 20 pid)) ?f"
      using fits len assms by (intro handshake_writer) simp_all
    have f: "length ?f = 68" using fits len assms by simp
    show ?thesis
    proof (cases sz)
      case None
      with message_writer.enc_null [OF writer, of msg] fits f show ?thesis unfolding run pid20 by simp
    next
      case (Some n)
      have "0 \<in> set ?f" by (simp add: frame_handshake_def)
      moreover have "MSG_handshake msg sz (info_hash meta) pid = Inr (?f @ drop 68 msg, Some 68)"
        using message_writer.enc_fits [OF writer, of msg n] fits f Some pid20 by simp
      ultimately show ?thesis
        unfolding run using fits f True Some by (auto simp: peers_Send_def load_n_def)
    qed
  qed
qed

lemma connect_peer_faults:
  assumes "\<forall>n. length (env_malloc E n) = n"
  shows "connect_peer E i meta q = Inl OutOfBounds"
proof -
  have "MSG_handshake (env_malloc E sizeof_int) None h pid = Inl OutOfBounds" for h pid
    using assms by (simp add: MSG_handshake_def bzero_out sizeof_int_def)
  then show ?thesis by (simp add: connect_peer_def send_handshake_def Let_def store_n_def)
qed

lemma torrent_start_outcome:
  assumes "torrent_start E content port listener = Inr cl" and "env_ok E"
  shows "get_peers (cl_tracker cl) = [] \<and> cl_sock_peer cl = [] \<and> cl_poll cl = poll_init listener (env_pfds E) \<and>
    cl_pieces cl = replicate (length (pieces (cl_meta cl))) []"
proof -
  from assms(1) obtain meta conn ps where c: "connect_peers E 0 meta (get_peers conn) = Inr ps"
    and cl: "cl = \<lparr>cl_meta = meta, cl_tracker = conn, cl_sock_peer = ps, cl_poll = poll_init listener (env_pfds E),
      cl_pieces = replicate (length (pieces meta)) []\<rparr>"
    by (auto simp: torrent_start_def Let_def elim!: and_then_InrE)
  have "get_peers conn = []"
    using c connect_peer_faults [of E] assms(2) by (cases "get_peers conn") (auto simp: env_ok_def)
  with c cl show ?thesis by simp
qed

lemma extract_int_dec: "- (2 ^ 31) \<le> p \<Longrightarrow> p < 2 ^ 31 \<Longrightarrow> extract_int (int_dec p) = p"
  by (cases "p < 0") (simp_all add: extract_int_def int_dec_def scan_int_nat_dec scan_int_minus_nat_dec)

text \<open>\<open>main\<close> without exactly a path and a port prints its usage and returns -1; with them it reads the
  metafile of that path and announces exactly the port that was written, as long as it is an \<open>int\<close>,
  and everything that is not a number counts as port 0.\<close>

lemma main_arguments:
  assumes "- (2 ^ 31) \<le> p" and "p < 2 ^ 31" and "\<forall>c \<in> set junk. \<not> is_digit c" and "length argv \<noteq> 3"
  shows "torrent_main E fs listener argv = Inr (Exits (- 1) ''need <path> <port>\<newline>'') \<and>
    torrent_main E fs listener [prog, path, int_dec p] =
      and_then (torrent_start E (fs path) p listener) (\<lambda>cl. Inr (Polls (path @ ''\<newline>'') cl)) \<and>
    torrent_main E fs listener [prog, path, junk] =
      and_then (torrent_start E (fs path) 0 listener) (\<lambda>cl. Inr (Polls (path @ ''\<newline>'') cl))"
proof -
  have none: "\<forall>c \<in> set t. \<not> is_digit c \<Longrightarrow> takeWhile is_digit t = []" for t by (cases t) auto
  let ?t = "dropWhile is_space junk"
  have t: "\<forall>c \<in> set ?t. \<not> is_digit c" using assms(3) set_dropWhileD by fastforce
  moreover have "set (tl t) \<subseteq> set t" for t :: string by (cases t) auto
  ultimately have "\<forall>c \<in> set (tl ?t). \<not> is_digit c" by blast
  with t have "extract_int junk = 0"
    using none [of ?t] none [of "tl ?t"] by (simp add: extract_int_def scan_int_def Let_def)
  then show ?thesis using assms by (simp add: torrent_main_def extract_int_dec)
qed

subsection \<open>A sample run\<close>

lemma sample_metafile:
  "\<exists>m. create_metafile (env_sha1 sample_env) (env_new_char sample_env) (env_uninit sample_env)
      (Some (be_text (torrent_file ''t'' sample_info))) = Inr m \<and> announce m = ''t'' \<and>
    info_hash m = replicate 20 0"
  using single_file_run [of "''t''" 100 "''f''" 50 sample_pieces "''d8:announce1:t4:''"
      "''d6:lengthi100e4:name1:f12:piece lengthi50e6:''" "env_new_char sample_env" "env_sha1 sample_env"
      "env_uninit sample_env", folded sample_info_def] sample_info_last
  by (auto simp: sample_env_def sample_pieces_length)

lemma sample_start:
  "\<exists>cl. torrent_start sample_env (Some (be_text (torrent_file ''t'' sample_info))) 6881 3 = Inr cl \<and>
     announce (cl_meta cl) = ''t''"
proof -
  obtain m where m: "create_metafile (env_sha1 sample_env) (env_new_char sample_env) (env_uninit sample_env)
      (Some (be_text (torrent_file ''t'' sample_info))) = Inr m" "announce m = ''t''"
      "info_hash m = replicate 20 0"
    using sample_metafile by blast
  let ?t = "TrackerConnector True ''t''"
  let ?h = "map (\<lambda>b. char_of (unat b)) (replicate 20 (0 :: byte))"
  let ?p = "make_peer_id (env_rand sample_env) @ [CHR 0x00]"
  have amp: "CHR ''&'' \<notin> set (make_peer_id (env_rand sample_env))"
    using peer_id_is_digits [of "CHR ''&''"] by (auto simp: is_digit_def)
  have "load_n ?h 0 20 = Inr ?h" by (simp add: load_n_def)
  moreover have "plain_esc ?h = Some ?h" by (simp add: plain_esc_def char_of_def)
  moreover have "load_n ?p 0 20 = Inr (make_peer_id (env_rand sample_env))"
    by (simp add: load_n_def make_peer_id_eq del: upt_Suc)
  moreover have "plain_esc (make_peer_id (env_rand sample_env)) = Some (make_peer_id (env_rand sample_env))"
    using amp by (simp add: plain_esc_def)
  ultimately obtain u where u: "tracker_encode plain_esc ?t ?h ?p 6881 = Inr u"
    by (simp add: tracker_encode_def append_c_def)
  have "tracker_request plain_esc (\<lambda>u. [syn_text (sample_response [])]) ?t (Some ?h) (Some ?p) 6881 =
      Inr (0, ?t\<lparr>tracker_peers := []\<rparr>)"
    using request_run [of ?t plain_esc ?h ?p 6881 u "\<lambda>u. [syn_text (sample_response [])]" "sample_response []" "[]" 99, OF _ u]
    by (simp add: sample_response_ok sample_response_text response_size_def TrackerConnector_def)
      (simp add: sample_response_def val_d_def live_def key_is_def c_str_def val_l_def)
  then have "torrent_start sample_env (Some (be_text (torrent_file ''t'' sample_info))) 6881 3 =
      Inr \<lparr>cl_meta = m, cl_tracker = ?t\<lparr>tracker_peers := []\<rparr>, cl_sock_peer = [], cl_poll = poll_init 3 [0, 0, 0, 0],
        cl_pieces = replicate (length (pieces m)) []\<rparr>"
    unfolding torrent_start_def m(1) and_then_simps Let_def m(2,3)
    by (simp add: sample_env_def get_peers_def)
  with m(2) show ?thesis by simp
qed

subsection \<open>A tracker with peers\<close>

lemma announce_encodes:
  assumes "length h = 20" and "\<forall>s. esc s \<noteq> None"
  shows "\<exists>u. tracker_encode esc t h (make_peer_id rand @ [CHR 0x00]) port = Inr u"
proof -
  have "load_n h 0 20 = Inr h" using assms(1) by (simp add: load_n_def)
  moreover have "load_n (make_peer_id rand @ [CHR 0x00]) 0 20 = Inr (make_peer_id rand)"
    by (simp add: load_n_def make_peer_id_eq del: upt_Suc)
  moreover obtain h' p' where "esc h = Some h'" "esc (make_peer_id rand) = Some p'"
    using assms(2) by (metis not_None_eq)
  ultimately show ?thesis by (simp add: tracker_encode_def append_c_def)
qed

text \<open>C4: the client cannot start in a swarm. With a metafile that can be read, allocations of the size asked
  for and a response of the tracker that can be read, \<open>main\<close> writes or reads out of bounds if and only if the
  tracker knows a peer, whatever the sockets do. Each of the three things the code hands to the
  handshake is fatal alone: it is sent if and only if its block has 68 bytes (it has 4), the block
  of the peer's id has 20 bytes and room for that id (it has 8), and the pointer to the size is not null
  (it is).\<close>

theorem swarm_crashes_client:
  assumes "create_metafile (env_sha1 E) (env_new_char E) (env_uninit E) (fs path) = Inr meta"
    and "length (info_hash meta) = 20" and "env_ok E"
    and "tracker_request (env_esc E) (env_http E) (TrackerConnector (env_curl E) (announce meta))
      (Some (map (\<lambda>b. char_of (unat b)) (info_hash meta))) (Some (make_peer_id (env_rand E) @ [CHR 0x00]))
      (extract_int port) = Inr (r, t)"
  shows "(torrent_main E fs listener [prog, path, port] = Inl OutOfBounds \<longleftrightarrow> get_peers t \<noteq> []) \<and>
    length (env_malloc E sizeof_int) = 4 \<and> length (env_malloc E sizeof_size_t) = 8 \<and>
    ((\<exists>sent. send_handshake send meta p msg peerid sz = Inr sent) \<longleftrightarrow>
      68 \<le> length msg \<and> 20 \<le> length peerid \<and> length (conn_peer_id p) \<le> length peerid \<and> sz \<noteq> None)"
proof -
  have "connect_peers E 0 meta (get_peers t) = (if get_peers t = [] then Inr [] else Inl OutOfBounds)"
    using assms(3) connect_peer_faults [of E] by (cases "get_peers t") (simp_all add: env_ok_def)
  then have "torrent_start E (fs path) (extract_int port) listener = Inl OutOfBounds \<longleftrightarrow> get_peers t \<noteq> []"
    using assms(1,4) by (simp add: torrent_start_def Let_def)
  then have "torrent_main E fs listener [prog, path, port] = Inl OutOfBounds \<longleftrightarrow> get_peers t \<noteq> []"
    by (auto simp: torrent_main_def and_then_eq_Inl)
  moreover have "length (env_malloc E sizeof_int) = 4" "length (env_malloc E sizeof_size_t) = 8"
    using assms(3) by (simp_all add: env_ok_def sizeof_int_def sizeof_size_t_def)
  ultimately show ?thesis using send_handshake_fits [OF assms(2)] by simp
qed

text \<open>The tracker of \<open>sample_env\<close> with one peer, and an escape that leaves the bytes as they are.\<close>

definition swarm_env :: torrent_env where
  "swarm_env = sample_env\<lparr>env_esc := \<lambda>s. Some s,
     env_http := \<lambda>u. [syn_text (sample_response [sample_peer_syn])]\<rparr>"

theorem swarm_crashes_client_witness:
  "torrent_main swarm_env (\<lambda>p. Some (be_text (torrent_file ''t'' sample_info))) 3 [''torrent'', ''f'', ''6881''] =
     Inl OutOfBounds"
proof -
  obtain m where m: "create_metafile (env_sha1 swarm_env) (env_new_char swarm_env) (env_uninit swarm_env)
      (Some (be_text (torrent_file ''t'' sample_info))) = Inr m" "info_hash m = replicate 20 0"
    using sample_metafile by (auto simp: swarm_env_def)
  have ok: "env_ok swarm_env" using sample_env_ok by (simp add: env_ok_def swarm_env_def)
  let ?t = "TrackerConnector (env_curl swarm_env) (announce m)"
  let ?h = "map (\<lambda>b. char_of (unat b)) (info_hash m)"
  let ?p = "make_peer_id (env_rand swarm_env) @ [CHR 0x00]"
  obtain u where u: "tracker_encode (env_esc swarm_env) ?t ?h ?p (extract_int ''6881'') = Inr u"
    using announce_encodes [of ?h "env_esc swarm_env" ?t "env_rand swarm_env" "extract_int ''6881''"] m(2)
    by (auto simp: swarm_env_def)
  have "tracker_request (env_esc swarm_env) (env_http swarm_env) ?t (Some ?h) (Some ?p) (extract_int ''6881'') =
      Inr (0, ?t\<lparr>tracker_peers := [sample_peer]\<rparr>)"
    using request_run [of ?t "env_esc swarm_env" ?h ?p "extract_int ''6881''" u "env_http swarm_env"
        "sample_response [sample_peer_syn]" "[]" 99, OF _ u] parse_peer [OF sample_node_peer, of "[]"]
    by (simp add: sample_response_ok sample_response_text response_size_def TrackerConnector_def swarm_env_def sample_env_def)
      (simp add: sample_response_def val_d_def live_def key_is_def c_str_def val_l_def)
  from swarm_crashes_client [of swarm_env "\<lambda>p. Some (be_text (torrent_file ''t'' sample_info))" "''f''", OF m(1) _ ok this] m(2)
  show ?thesis by (simp add: get_peers_def)
qed

end
