(* ===== verification/Spec2Isabelle.thy ===== *)
theory Spec2Isabelle
  imports BAccept SampleTool UnitTests BencodeDump BReencode MetaPrint MetaFields MetaTorrents TorrentMain
begin

text \<open>
  A verification library for a BitTorrent client in C++ with two bencode libraries of its own.

  \<^bold>\<open>The program and its parts.\<close> \<open>main\<close> (\<open>torrent.cpp\<close>) reads a metafile with
  \<open>Metafile::create_metafile\<close> (\<open>read_metafile.cpp\<close>), announces itself to the tracker it names with
  \<open>TrackerConnector\<close> (\<open>tracker_connector.cpp\<close>), connects to the peers of the response with \<open>peers\<close>
  (\<open>peer.cpp\<close>), and then polls a table of descriptors, receiving messages of the peer protocol
  (\<open>msg_protocol.cpp\<close>) and keeping blocks of pieces (\<open>block_t.cpp\<close>). Metafiles and tracker responses
  are read with the C library \<open>bencode/bencode.c\<close>. The C++ library \<open>cpp-bencoding\<close> with its sample
  program, and the driver \<open>bencode/test.c\<close>, stand beside the client.

  \<^bold>\<open>Theories, in the order of their imports.\<close>

  \<^item> \<open>Prelude\<close>: faults, the result type \<open>'a res\<close> with its sequencing \<open>and_then\<close>, integer conversions,
    the locale \<open>prefix_codec\<close> (an encoder and a decoder that reads one value off its input). \<open>CMemory\<close>:
    checked accesses to blocks of memory, network byte order, C strings; it interprets the codec on
    32-bit words. \<open>Simulation\<close>: traces of step systems and the locales of refinement, interpreted on the
    dictionary and on the main loop. \<open>Decimal\<close>: decimal numbers as the programs print and read them.
  \<^item> \<open>MsgProtocol\<close>: the class \<open>MSG\<close> with an encoder per message and \<open>MSG_decode\<close>; the frames of the
    protocol specification, which the encoders are compared with.
  \<^item> \<open>BItems\<close>, \<open>BContainers\<close>: the item classes and their containers; locale \<open>ordered_dict\<close> (what users of
    the dictionary rely on) and locale \<open>iterable\<close> (iterators), each interpreted on the model's operations.
    \<open>CppStream\<close>: input streams and \<open>Utils\<close>. \<open>BEncoder\<close>, \<open>BDecoder\<close>, \<open>BPretty\<close>: the three visitors and
    the recursive decoder. \<open>BCodec\<close>: encoder against decoder, as an interpretation of the codec.
    \<open>SampleTool\<close>: the sample program. \<open>UnitTests\<close>: every case of the library's unit tests, evaluated on
    the model.
  \<^item> \<open>BSyntax\<close>: the concrete syntax of bencoded texts as trees, independent of any decoder: validity,
    uniqueness, canonical form. \<open>BAccept\<close>: the C++ decoder accepts exactly the valid texts.
  \<^item> \<open>BencodeC\<close>: tree, decoder and accessors of the C library, and what the decoder does on every valid
    text; \<open>BencodeOut\<close>: its encoder and destructor; \<open>BReencode\<close>: decoding and encoding again;
    \<open>BencodeDump\<close>: \<open>be_dump\<close> and the test driver.
  \<^item> \<open>Tracker\<close>, \<open>MetafileReader\<close>, \<open>MetaPrint\<close>, \<open>PeerConn\<close>: the tracker client, the metafile reader and
    printer, and the connection to a peer. \<open>MetaFields\<close>: what each field of a metafile holds.
    \<open>MetaTorrents\<close>: torrent files with typed entries in any order, from their text to the last field.
  \<^item> \<open>PeerRequests\<close>: the answer to \<open>have\<close> and the storing of blocks; \<open>PeerReceive\<close>: reading a message off
    a socket, the answer to \<open>request\<close>, and the whole handler; \<open>TorrentMain\<close>: start-up, the main loop as
    the step relation \<open>client_step\<close>, and \<open>main\<close>.
  \<^item> This theory: properties that span components.

  \<^bold>\<open>How code and model correspond.\<close> Functions keep their names; a method takes its object and returns
  the new one. A C++ object is a record, a block of memory the list of its bytes, an access outside it
  the fault \<open>OutOfBounds\<close>, a null pointer used the fault \<open>NullDeref\<close>. Integers that can wrap are words.
  Exceptions of the C++ decoder are values of \<open>decode_exn\<close>. \<open>'a res option\<close> is the type of code that may
  not return: \<open>None\<close> stands for blocking or looping for ever. What a program leaves uninitialised is an
  argument of the definition that reads it.

  \<^bold>\<open>Parameters\<close> stand for code that is not in the repository: SHA-1, libcurl (escaping, and the
  chunks of the response), the socket calls, \<open>malloc\<close> and \<open>rand\<close>. \<open>recv\<close> is described by the pieces in
  which data arrives; it returns at most what it is asked for. A hypothesis on a parameter states its
  documented behaviour only: allocations have the size asked for, a hash has 20 bytes.

  \<^bold>\<open>What is shown.\<close> Grammar: the C++ decoder accepts exactly the valid texts, with the value of their
  unique tree (\<open>BAccept\<close>), and the C decoder reads all of these as the same data (here). Codecs: each
  library reads back what it writes and rejects truncated texts; re-encoding is the identity exactly on
  canonical texts (\<open>BCodec\<close>, \<open>BAccept\<close>, \<open>BencodeOut\<close>, \<open>BReencode\<close>). Refinements: dictionaries are finite maps
  (\<open>BContainers\<close>), printers produce their outlines (\<open>BPretty\<close>, \<open>BencodeDump\<close>), the main loop is a list
  of clients (\<open>TorrentMain\<close>). Metafiles: their shape, the value of every field, and the result for whole torrents
  (\<open>MetaPrint\<close>, \<open>MetaFields\<close>, \<open>MetaTorrents\<close>). Messages: every encoder of fixed size writes the frame of
  the protocol, and the inputs on which the decoder leaves its buffers are known exactly (\<open>MsgProtocol\<close>). Termination and liveness: the decoders never run out of their bounds, the loops on sockets end when data keeps
  coming, or provably do not. Memory safety: where it holds, and where it fails the exact inputs.
  Composed, these give the behaviour of the client as it is: it cannot exchange a single message, and
  does not survive a tracker that knows a peer.

  \<^bold>\<open>Bounds.\<close> The C++ decoder recurses at most three times per byte of input and once more, the C
  decoder four times and once more; \<open>decode_fuel_enough\<close> and \<open>be_dec_returns\<close> show that these bounds
  are never reached, so no theorem depends on them. The loops on sockets are total functions, by the
  data still to come.

  \<^bold>\<open>Not modelled.\<close> Output of the client to its console that no one reads back; the constructors'
  set-up and clean-up of libcurl, apart from its failure. The piece branch of the main loop,
  \<open>block_t.cpp\<close>, and the call of \<open>piece\<close> in the answer to a request do not compile as they stand: the
  first two are read as what they spell out, the conversion the third one lacks is a parameter.
  Descriptors of the table are modelled without their event masks, and their counts are natural numbers:
  the \<open>int\<close> of the source would wrap only beyond \<open>2 ^ 30\<close> clients. The sentinel of \<open>readUpTo\<close> is compared as
  a character; in the source a sentinel above 127 would never match, but only \<open>:\<close> and \<open>e\<close> are passed. Pointers to items are the items
  they point to: the library never compares or shares them.
\<close>

section \<open>Properties across components\<close>

text \<open>C3: the client never exchanges a message with anyone. If \<open>main\<close> gets as far as its loop without a
  fault, the tracker has given it no peers, so it has sent no handshake, and the loop stays in its
  first state, in which it polls no descriptor.\<close>

theorem client_stays_silent:
  assumes "torrent_main E fs listener argv = Inr (Polls out cl)" and "env_ok E"
  shows "length argv = 3 \<and> get_peers (cl_tracker cl) = [] \<and> cl_sock_peer cl = [] \<and> fd_count (cl_poll cl) = 0 \<and>
    (trace (client_next E (cl_meta cl) listener) evs (cl_poll cl, cl_pieces cl) y \<longleftrightarrow>
      evs = [] \<and> y = (cl_poll cl, cl_pieces cl))"
proof -
  from assms(1) have "torrent_start E (fs (argv ! 1)) (extract_int (argv ! 2)) listener = Inr cl" "length argv = 3"
    by (auto simp: torrent_main_def elim!: and_then_InrE split: if_splits)
  with torrent_start_outcome [OF _ assms(2)] have "get_peers (cl_tracker cl) = []" "cl_sock_peer cl = []"
    "cl_poll cl = poll_init listener (env_pfds E)" by blast+
  moreover note poll_init_trace
  moreover have "fd_count (poll_init listener (env_pfds E)) = 0" by (simp add: poll_init_def)
  ultimately show ?thesis using \<open>length argv = 3\<close> by simp
qed

theorem client_stays_silent_witness:
  "\<exists>out cl. torrent_main sample_env (\<lambda>p. Some (be_text (torrent_file ''t'' sample_info))) 3 [''torrent'', ''f'', int_dec 6881] =
      Inr (Polls out cl) \<and> get_peers (cl_tracker cl) = []"
proof -
  have "extract_int (int_dec 6881) = 6881" using extract_int_dec [of 6881] by simp
  moreover obtain cl where
    "torrent_start sample_env (Some (be_text (torrent_file ''t'' sample_info))) 6881 3 = Inr cl"
    using sample_start by blast
  ultimately have run: "torrent_main sample_env (\<lambda>p. Some (be_text (torrent_file ''t'' sample_info))) 3
      [''torrent'', ''f'', int_dec 6881] = Inr (Polls ''f\<newline>'' cl)"
    unfolding torrent_main_def by (simp del: be_text.simps)
  from client_stays_silent [OF run sample_env_ok] run show ?thesis by blast
qed

text \<open>The two bencode decoders of the program agree: what the C++ library encodes (without empty
  dictionaries), both its own decoder and the C decoder read as the same tree.\<close>

lemma decoders_agree:
  assumes "decodable env x" and "no_empty_dict (of_bitem x)" and "max_alloc env < 2 ^ 63"
  shows "encode (Some x) = Inr (bencode x) \<and> decode_string env (bencode x) = Inr x \<and>
    be_decoden (bencode x) (int (length (bencode x))) = Inr (Some (of_bitem x))"
proof -
  have nf: "null_free x" using assms(1) by (simp add: decodable_def wf_null_free)
  have t: "be_text (of_bitem x) = bencode x" using nf by (rule be_text_of_bitem)
  have f: "be_full (of_bitem x)"
    using assms by (auto simp: decodable_def intro: be_full_of_bitem nf)
  have "decode_string env (bencode x) = Inr x"
    using decode_stream_bencode [OF assms(1), of "[]"] by (simp add: decode_string_def)
  moreover have "be_dec (Suc n) (bencode x @ [], int (length (bencode x))) = Inr (Some (of_bitem x), [], 0)"
    if "4 * length (bencode x) \<le> n" for n
    using reads_backD [OF be_dec_text [OF f assms(2)], of "Suc n" "int (length (bencode x))" "[]"] that
    by (simp add: t)
  then have "be_decoden (bencode x) (int (length (bencode x))) = Inr (Some (of_bitem x))"
    using be_decoden_run [of "bencode x" "int (length (bencode x))" "Inr (Some (of_bitem x), [], 0)"] by simp
  ultimately show ?thesis using nf by (simp add: BEncoder.encode_run)
qed

text \<open>The item of the C++ library that holds the data of a tree of the C library.\<close>

fun node_item :: "be_node \<Rightarrow> bitem" where
  "node_item (BE_STR s) = BString (case s of None \<Rightarrow> [] | Some t \<Rightarrow> t)"
| "node_item (BE_INT i) = BInteger i"
| "node_item (BE_LIST xs) = BList (map (\<lambda>x. Some (node_item x)) xs)"
| "node_item (BE_DICT d) = BDictionary (bdict.puts
     (map (\<lambda>e. (case fst e of None \<Rightarrow> [] | Some k \<Rightarrow> k, case snd e of None \<Rightarrow> None | Some x \<Rightarrow> Some (node_item x))) d)
     BDictionary_create)"

fun ints_fit :: "syn \<Rightarrow> bool" where
  "ints_fit (SInt sg ds) = (- (2 ^ 63) \<le> int_value sg ds \<and> int_value sg ds < 2 ^ 63)"
| "ints_fit (SStr ls s) = True"
| "ints_fit (SList ys) = list_all ints_fit ys"
| "ints_fit (SDict es) = list_all (\<lambda>e. ints_fit (snd e)) es"

lemma node_item_syn: "ints_fit y \<Longrightarrow> node_item (syn_node y) = syn_value env r y"
proof (induction y arbitrary: r rule: syn_induct)
  case (SInt sg ds)
  then show ?case by (simp add: Let_def clamp_id)
next
  case (SList ys)
  have "map (\<lambda>x. Some (node_item (syn_node x))) ys = list_values env r ys"
    if "\<And>y r. y \<in> set ys \<Longrightarrow> node_item (syn_node y) = syn_value env r y" for r
    using that by (induction ys) auto
  then show ?case using SList by (simp add: list_all_iff comp_def)
next
  case (SDict es)
  have "map (\<lambda>e. (snd (fst e), Some (node_item (syn_node (snd e))))) es = entry_values env r es"
    if "\<And>k y r. (k, y) \<in> set es \<Longrightarrow> node_item (syn_node y) = syn_value env r y" for r
    using that by (induction es) force+
  then show ?case using SDict by (fastforce simp: list_all_iff comp_def)
qed simp

text \<open>C24: the two bencode decoders of the program agree on every text the C++ decoder accepts, however
  it is written: the C decoder returns a tree with the same data, integers out of range apart. Keys may
  come in any order there, the tree keeps it. The one exception are texts with an empty dictionary,
  on all of which the C decoder dereferences a null pointer.\<close>

theorem decoders_agree_on_texts:
  assumes "decode_string env s = Inr x" and "max_alloc env < 2 ^ 63"
  shows "\<exists>y. s = syn_text y \<and> syn_valid (max_alloc env) y \<and>
    be_decoden s (int (length s)) = (if dicts_filled y then Inr (Some (syn_node y)) else Inl NullDeref) \<and>
    (ints_fit y \<longrightarrow> node_item (syn_node y) = x)"
proof -
  from assms(1) obtain y where y: "s = syn_text y" "syn_valid (max_alloc env) y" "x = syn_value env 0 y"
    unfolding decode_string_iff by blast
  have "be_dec (Suc (4 * length s)) (s @ [], int (length s)) =
      (if dicts_filled y then Inr (Some (syn_node y), [], 0) else Inl NullDeref)"
    using syn_readsD [OF be_dec_syn [OF y(2) assms(2)], of "Suc (4 * length s)" "int (length s)" "[]"]
    by (simp add: y(1))
  then have "be_decoden s (int (length s)) = (if dicts_filled y then Inr (Some (syn_node y)) else Inl NullDeref)"
    by (auto simp: be_decoden_def simp del: be_dec.simps)
  with y node_item_syn [of y env 0] show ?thesis by blast
qed

theorem decoders_agree_on_texts_witness:
  "be_decoden ''d1:bli+1ee1:a00:e'' 17 =
    Inr (Some (BE_DICT [(Some ''b'', Some (BE_LIST [BE_INT 1])), (Some ''a'', Some (BE_STR (Some [])))]))"
proof -
  let ?y = "SDict [((''1'', ''b''), SList [SInt ''+'' ''1'']), ((''1'', ''a''), SStr ''00'' [])]"
  have y: "''d1:bli+1ee1:a00:e'' = syn_text ?y" "syn_valid (max_alloc small_env) ?y"
    by (simp_all add: key_text_def key_valid_def unpadded_def is_digit_def dec_value_def digit_value_def small_env_def)
  then have "decode_string small_env ''d1:bli+1ee1:a00:e'' = Inr (syn_value small_env 0 ?y)"
    unfolding decode_string_iff by blast
  from decoders_agree_on_texts [OF this] obtain z where "''d1:bli+1ee1:a00:e'' = syn_text z"
    "syn_valid (max_alloc small_env) z"
    "be_decoden ''d1:bli+1ee1:a00:e'' 17 = (if dicts_filled z then Inr (Some (syn_node z)) else Inl NullDeref)"
    by (auto simp: small_env_def)
  moreover from this have "z = ?y" using syn_text_unique [of z "[]" ?y "[]"] y by metis
  ultimately show ?thesis by (simp add: int_value_def dec_value_def digit_value_def LLONG_MAX_def LLONG_MIN_def)
qed

end
